theory Spec2Isabelle
  imports Complex_Main "HOL-Library.Multiset"
begin

section \<open>JavaScript values\<close>

text \<open>
  The store keeps JavaScript primitives: the declared field types are
  \<^verbatim>\<open>string\<close>, \<^verbatim>\<open>number\<close> and \<^verbatim>\<open>boolean\<close>, identifiers are numbers or
  strings, and the code itself produces \<^verbatim>\<open>null\<close> and \<^verbatim>\<open>undefined\<close>. Nested objects,
  arrays and functions as field values are outside the model. A finite number is the
  rational it denotes (rounding of doubles is not modelled); \<^verbatim>\<open>NaN\<close> and the two
  infinities are values of their own.
\<close>

datatype jsnum = Fin rat | PInf | NInf | NaN

datatype jsval = JUndefined | JNull | JBool bool | JNum jsnum | JStr string

datatype error = TypeError | SyntaxError | FileAccessError

fun typeof :: "jsval \<Rightarrow> string" where
  "typeof JUndefined = ''undefined''"
| "typeof JNull = ''object''"
| "typeof (JBool b) = ''boolean''"
| "typeof (JNum n) = ''number''"
| "typeof (JStr s) = ''string''"

text \<open>
  The conversion of a string to a number (\<^verbatim>\<open>StringToNumber\<close> of the language) is a
  parameter \<open>tn\<close> of every operation that compares or subtracts values: the theorems
  hold for each such conversion.
\<close>

fun ToNumber :: "(string \<Rightarrow> jsnum) \<Rightarrow> jsval \<Rightarrow> jsnum" where
  "ToNumber tn JUndefined = NaN"
| "ToNumber tn JNull = Fin 0"
| "ToNumber tn (JBool b) = Fin (if b then 1 else 0)"
| "ToNumber tn (JNum n) = n"
| "ToNumber tn (JStr s) = tn s"

text \<open>
  For the closed examples: \<^verbatim>\<open>StringToNumber\<close> on strings of decimal digits (the empty
  string is \<open>0\<close>). Signs, fractions, exponents, other radixes and surrounding white
  space are not covered; no example compares such a string with a number.
\<close>

fun digits_value :: "string \<Rightarrow> rat \<Rightarrow> jsnum" where
  "digits_value [] acc = Fin acc"
| "digits_value (c # cs) acc =
     (if c \<in> set ''0123456789''
      then digits_value cs (10 * acc + of_nat (of_char c - 48))
      else NaN)"

definition StringToNumber :: "string \<Rightarrow> jsnum" where
  "StringToNumber s = digits_value s 0"

fun num_eq :: "jsnum \<Rightarrow> jsnum \<Rightarrow> bool" where
  "num_eq NaN b = False"
| "num_eq a NaN = False"
| "num_eq a b = (a = b)"

text \<open>The operator \<^verbatim>\<open>==\<close> on primitives (\<^verbatim>\<open>IsLooselyEqual\<close>).\<close>

fun loose_eq :: "(string \<Rightarrow> jsnum) \<Rightarrow> jsval \<Rightarrow> jsval \<Rightarrow> bool" where
  "loose_eq tn JUndefined y = (y = JUndefined \<or> y = JNull)"
| "loose_eq tn JNull y = (y = JUndefined \<or> y = JNull)"
| "loose_eq tn x JUndefined = False"
| "loose_eq tn x JNull = False"
| "loose_eq tn (JStr a) (JStr b) = (a = b)"
| "loose_eq tn x y = num_eq (ToNumber tn x) (ToNumber tn y)"

text \<open>The operator \<^verbatim>\<open>??\<close>.\<close>

definition nullish :: "jsval \<Rightarrow> jsval \<Rightarrow> jsval" where
  "nullish a b = (if a = JUndefined \<or> a = JNull then b else a)"

section \<open>Objects\<close>

text \<open>
  A plain object is the list of its own properties in enumeration order, each key once.
  It inherits the members of \<^verbatim>\<open>Object.prototype\<close>, whose names are
  \<open>Object_prototype\<close>: the operator \<^verbatim>\<open>in\<close> finds these names too, and a property
  access by such a name, on an object without an own property of that name, yields the
  inherited member. The schema is looked up in both ways by \<open>isField\<close> and
  \<open>isCorrectType\<close>. \<open>obj_get\<close> reads an own property and \<open>assign\<close> writes one: they are
  the property access and the assignment of the code for every name outside
  \<open>Object_prototype\<close>. An assignment to an inherited name other than \<^verbatim>\<open>__proto__\<close>
  creates an own property, as \<open>assign\<close> does; an assignment to \<^verbatim>\<open>__proto__\<close> sets the
  prototype instead and is not modelled.
\<close>

type_synonym obj = "(string \<times> jsval) list"

definition Object_prototype :: "string list" where
  "Object_prototype =
     [''constructor'', ''__defineGetter__'', ''__defineSetter__'', ''hasOwnProperty'',
      ''__lookupGetter__'', ''__lookupSetter__'', ''isPrototypeOf'', ''propertyIsEnumerable'',
      ''toString'', ''valueOf'', ''__proto__'', ''toLocaleString'']"

definition obj_get :: "obj \<Rightarrow> string \<Rightarrow> jsval" where
  "obj_get ob k = (case map_of ob k of Some v \<Rightarrow> v | None \<Rightarrow> JUndefined)"

fun assign :: "string \<Rightarrow> jsval \<Rightarrow> obj \<Rightarrow> obj" where
  "assign k v [] = [(k, v)]"
| "assign k v (p # ps) = (if fst p = k then (k, v) # ps else p # assign k v ps)"

fun spread :: "obj \<Rightarrow> obj \<Rightarrow> obj" where
  "spread base [] = base"
| "spread base (p # ps) = spread (assign (fst p) (snd p) base) ps"

section \<open>Schema, options and the store\<close>

record descr =
  field_type :: string
  field_default :: jsval
  field_rename :: "string option"

record save_options =
  auto :: jsval
  onExit :: jsval

record options =
  checkType :: jsval
  spaces :: jsval
  save_opts :: "save_options option"

record store =
  directory :: string
  options :: options
  "structure" :: "(string \<times> descr) list"
  storage :: "obj list"

text \<open>
  \<^verbatim>\<open>field in this.structure\<close> holds for a declared field and for an inherited name.
  With type checking enabled \<^verbatim>\<open>#isCorrectType\<close> first destructures
  \<^verbatim>\<open>this.structure[field]\<close>. For a name neither declared nor inherited that is
  \<^verbatim>\<open>undefined\<close> and the destructuring throws. For an inherited name that the schema
  does not declare it is a member of \<^verbatim>\<open>Object.prototype\<close>, none of which has a
  property \<^verbatim>\<open>type\<close>: the comparison of \<^verbatim>\<open>typeof data\<close> with \<^verbatim>\<open>undefined\<close> is false.
\<close>

definition isField :: "store \<Rightarrow> string \<Rightarrow> bool" where
  "isField s field =
     (field \<in> set (map fst (structure s)) \<or> field \<in> set Object_prototype)"

definition isCorrectType :: "(string \<Rightarrow> jsnum) \<Rightarrow> store \<Rightarrow> string \<Rightarrow> jsval \<Rightarrow> error + bool" where
  "isCorrectType tn s field data =
     (if loose_eq tn (checkType (options s)) (JBool False) then Inr (isField s field)
      else (case map_of (structure s) field of
              Some d \<Rightarrow> Inr (isField s field \<and> typeof data = field_type d)
            | None \<Rightarrow>
                if field \<in> set Object_prototype
                then Inr (isField s field \<and> loose_eq tn (JStr (typeof data)) JUndefined)
                else Inl TypeError))"

fun createRow_reduce ::
  "(string \<Rightarrow> jsnum) \<Rightarrow> store \<Rightarrow> obj \<Rightarrow> string list \<Rightarrow> obj \<Rightarrow> error + obj" where
  "createRow_reduce tn s values [] previous = Inr previous"
| "createRow_reduce tn s values (current # rest) previous =
     (case isCorrectType tn s current (obj_get values current) of
        Inl e \<Rightarrow> Inl e
      | Inr ok \<Rightarrow>
          if ok then
            createRow_reduce tn s values rest (assign current (obj_get values current) previous)
          else (case map_of (structure s) current of
                  None \<Rightarrow> Inl TypeError
                | Some d \<Rightarrow>
                    createRow_reduce tn s values rest
                      (assign current (nullish (field_default d) JNull) previous)))"

definition createRow :: "(string \<Rightarrow> jsnum) \<Rightarrow> store \<Rightarrow> obj \<Rightarrow> error + obj" where
  "createRow tn s values = createRow_reduce tn s values (map fst (structure s)) []"

section \<open>Lookup, identifier generation and mutation\<close>

definition get :: "(string \<Rightarrow> jsnum) \<Rightarrow> store \<Rightarrow> jsval \<Rightarrow> obj option" where
  "get tn s i = List.find (\<lambda>row. loose_eq tn (obj_get row ''id'') i) (storage s)"

text \<open>
  \<^verbatim>\<open>Math.random\<close> is the list of the values it returns next (each in \<open>[0, 1)\<close>). The
  recursion of \<^verbatim>\<open>#generateID\<close> takes one draw per attempt; \<open>None\<close> says that it has not
  returned within the draws given.
\<close>

fun generateID :: "(string \<Rightarrow> jsnum) \<Rightarrow> store \<Rightarrow> rat list \<Rightarrow> (jsval \<times> rat list) option" where
  "generateID tn s [] = None"
| "generateID tn s (u # us) =
     (let random = JNum (Fin (of_int \<lfloor>u * (2147483648 - 0 + 1)\<rfloor> + 0))
      in if get tn s random \<noteq> None then generateID tn s us else Some (random, us))"

text \<open>
  A call returns, or throws leaving the state it has reached, or has not finished within
  the random draws given. The state is the store together with the remaining draws.
\<close>

datatype 'a result = Returned 'a | Threw error 'a | Unfinished

definition clear :: "store \<Rightarrow> store" where
  "clear s = s\<lparr>storage := []\<rparr>"

definition delete :: "(string \<Rightarrow> jsnum) \<Rightarrow> store \<Rightarrow> jsval \<Rightarrow> store" where
  "delete tn s i = s\<lparr>storage := filter (\<lambda>row. \<not> loose_eq tn (obj_get row ''id'') i) (storage s)\<rparr>"

text \<open>The push of \<^verbatim>\<open>{ id: id ?? this.#generateID(), ...this.#createRow(values) }\<close>.\<close>

definition push_row ::
  "(string \<Rightarrow> jsnum) \<Rightarrow> store \<Rightarrow> rat list \<Rightarrow> jsval \<Rightarrow> obj \<Rightarrow> (store \<times> rat list) result" where
  "push_row tn s rnd i values =
     (case (if i = JUndefined \<or> i = JNull then generateID tn s rnd else Some (i, rnd)) of
        None \<Rightarrow> Unfinished
      | Some (i', rnd') \<Rightarrow>
          (case createRow tn s values of
             Inl e \<Rightarrow> Threw e (s, rnd')
           | Inr row \<Rightarrow> Returned (s\<lparr>storage := storage s @ [spread [(''id'', i')] row]\<rparr>, rnd')))"

definition add ::
  "(string \<Rightarrow> jsnum) \<Rightarrow> store \<Rightarrow> rat list \<Rightarrow> jsval \<Rightarrow> obj \<Rightarrow> (store \<times> rat list) result" where
  "add tn s rnd i values =
     (if get tn s i = None then push_row tn s rnd i values else Returned (s, rnd))"

fun findIndex :: "('a \<Rightarrow> bool) \<Rightarrow> 'a list \<Rightarrow> int" where
  "findIndex P [] = - 1"
| "findIndex P (x # xs) =
     (if P x then 0 else (let r = findIndex P xs in if r < 0 then - 1 else r + 1))"

text \<open>
  The loop over \<^verbatim>\<open>Object.entries(values)\<close> in \<^verbatim>\<open>set\<close>: it assigns into the row in
  place and stops at the first exception, keeping the assignments made so far. In
  \<^verbatim>\<open>set\<close> the index is that of the record \<^verbatim>\<open>get\<close> has found (lemma
  \<open>findIndex_find\<close>); an assignment into \<^verbatim>\<open>this.storage[-1]\<close> would throw.
\<close>

fun set_entries ::
  "(string \<Rightarrow> jsnum) \<Rightarrow> store \<Rightarrow> obj \<Rightarrow> obj \<Rightarrow> obj \<times> error option" where
  "set_entries tn s [] row = (row, None)"
| "set_entries tn s (p # ps) row =
     (case isCorrectType tn s (fst p) (snd p) of
        Inl e \<Rightarrow> (row, Some e)
      | Inr ok \<Rightarrow> set_entries tn s ps (if ok then assign (fst p) (snd p) row else row))"

definition set_values ::
  "(string \<Rightarrow> jsnum) \<Rightarrow> store \<Rightarrow> rat list \<Rightarrow> jsval \<Rightarrow> obj \<Rightarrow> (store \<times> rat list) result" where
  "set_values tn s rnd i values =
     (if get tn s i \<noteq> None then
        (let index = findIndex (\<lambda>row. loose_eq tn (obj_get row ''id'') i) (storage s)
         in if index < 0 \<or> int (length (storage s)) \<le> index then Threw TypeError (s, rnd)
            else (case set_entries tn s values (storage s ! nat index) of
                    (row, None) \<Rightarrow>
                      Returned (s\<lparr>storage := (storage s)[nat index := row]\<rparr>, rnd)
                  | (row, Some e) \<Rightarrow>
                      Threw e (s\<lparr>storage := (storage s)[nat index := row]\<rparr>, rnd)))
      else push_row tn s rnd i values)"

section \<open>Persistence\<close>

text \<open>
  The text of the backing file is represented by the document it denotes: either text
  that \<^verbatim>\<open>JSON.parse\<close> rejects, or an array of flat objects of JSON primitives, each
  object as the list of its members as written (of a repeated key the last one counts).
  The indentation chosen by the \<^verbatim>\<open>spaces\<close> option does not change the document.
\<close>

datatype json = JsonNull | JsonBool bool | JsonNum rat | JsonStr string

datatype backing_file = Malformed | Document "(string \<times> json) list list"

fun stringify_value :: "jsval \<Rightarrow> json option" where
  "stringify_value JUndefined = None"
| "stringify_value JNull = Some JsonNull"
| "stringify_value (JBool b) = Some (JsonBool b)"
| "stringify_value (JNum (Fin q)) = Some (JsonNum q)"
| "stringify_value (JNum n) = Some JsonNull"
| "stringify_value (JStr s) = Some (JsonStr s)"

fun stringify_object :: "obj \<Rightarrow> (string \<times> json) list" where
  "stringify_object [] = []"
| "stringify_object (p # ps) =
     (case stringify_value (snd p) of
        None \<Rightarrow> stringify_object ps
      | Some j \<Rightarrow> (fst p, j) # stringify_object ps)"

definition JSON_stringify :: "obj list \<Rightarrow> backing_file" where
  "JSON_stringify rows = Document (map stringify_object rows)"

fun parse_value :: "json \<Rightarrow> jsval" where
  "parse_value JsonNull = JNull"
| "parse_value (JsonBool b) = JBool b"
| "parse_value (JsonNum q) = JNum (Fin q)"
| "parse_value (JsonStr s) = JStr s"

fun JSON_parse :: "backing_file \<Rightarrow> error + obj list" where
  "JSON_parse Malformed = Inl SyntaxError"
| "JSON_parse (Document rows) =
     Inr (map (\<lambda>members. spread [] (map (\<lambda>p. (fst p, parse_value (snd p))) members)) rows)"

type_synonym filesystem = "string \<Rightarrow> backing_file option"

definition save :: "filesystem \<Rightarrow> store \<Rightarrow> filesystem \<times> store" where
  "save fs s = (fs(directory s \<mapsto> JSON_stringify (storage s)), s)"

definition createFile :: "filesystem \<Rightarrow> string \<Rightarrow> filesystem" where
  "createFile fs dir = (if fs dir = None then fs(dir \<mapsto> JSON_stringify []) else fs)"

text \<open>
  \<^verbatim>\<open>#saveAuto\<close>: the delay in milliseconds handed to \<^verbatim>\<open>setInterval\<close>, or \<open>None\<close> when
  no timer is set.
\<close>

fun num_mul :: "jsnum \<Rightarrow> jsnum \<Rightarrow> jsnum" where
  "num_mul NaN b = NaN"
| "num_mul a NaN = NaN"
| "num_mul (Fin x) (Fin y) = Fin (x * y)"
| "num_mul (Fin x) PInf = (if x = 0 then NaN else if 0 < x then PInf else NInf)"
| "num_mul (Fin x) NInf = (if x = 0 then NaN else if 0 < x then NInf else PInf)"
| "num_mul PInf (Fin y) = (if y = 0 then NaN else if 0 < y then PInf else NInf)"
| "num_mul NInf (Fin y) = (if y = 0 then NaN else if 0 < y then NInf else PInf)"
| "num_mul PInf PInf = PInf"
| "num_mul PInf NInf = NInf"
| "num_mul NInf PInf = NInf"
| "num_mul NInf NInf = PInf"

definition saveAuto :: "(string \<Rightarrow> jsnum) \<Rightarrow> options \<Rightarrow> jsnum option" where
  "saveAuto tn opts =
     (let a = (case save_opts opts of None \<Rightarrow> JUndefined | Some sv \<Rightarrow> auto sv)
      in if loose_eq tn a (JNum (Fin 0)) then None
         else if typeof a = ''number'' then Some (num_mul (ToNumber tn a) (Fin 1000))
         else Some (num_mul (Fin 60) (Fin 1000)))"

text \<open>\<^verbatim>\<open>#saveOnExit\<close>: whether the two process hooks are registered.\<close>

definition saveOnExit :: "(string \<Rightarrow> jsnum) \<Rightarrow> options \<Rightarrow> bool" where
  "saveOnExit tn opts =
     (let e = (case save_opts opts of None \<Rightarrow> JUndefined | Some sv \<Rightarrow> onExit sv)
      in if loose_eq tn e (JBool False) then False
         else loose_eq tn e (JBool True) \<or> loose_eq tn e JUndefined)"

text \<open>\<^verbatim>\<open>#structure\<close>: the reduce over the schema's keys for one row, then all rows.\<close>

fun structure_reduce :: "(string \<times> descr) list \<Rightarrow> obj \<Rightarrow> string list \<Rightarrow> obj \<Rightarrow> error + obj" where
  "structure_reduce struct row [] previous = Inr previous"
| "structure_reduce struct row (current # rest) previous =
     (case map_of struct current of
        None \<Rightarrow> Inl TypeError
      | Some d \<Rightarrow>
          (case field_rename d of
             None \<Rightarrow> structure_reduce struct row rest (assign current (obj_get row current) previous)
           | Some rename \<Rightarrow>
               if rename \<noteq> [] then
                 structure_reduce struct row rest (assign rename (obj_get row current) previous)
               else
                 structure_reduce struct row rest (assign current (obj_get row current) previous)))"

fun structure_rows :: "(string \<times> descr) list \<Rightarrow> obj list \<Rightarrow> error + obj list" where
  "structure_rows struct [] = Inr []"
| "structure_rows struct (row # rows) =
     (case structure_reduce struct row (map fst struct) [] of
        Inl e \<Rightarrow> Inl e
      | Inr structured \<Rightarrow>
          (case structure_rows struct rows of
             Inl e \<Rightarrow> Inl e
           | Inr rows' \<Rightarrow> Inr (spread [(''id'', obj_get row ''id'')] structured # rows')))"

text \<open>
  The constructor: the file system after \<^verbatim>\<open>#createFile\<close>, the timer and the hooks it
  sets, and the store it builds; or the exception of \<^verbatim>\<open>JSON.parse\<close>. Writing and
  reading the file succeed; after \<^verbatim>\<open>#createFile\<close> the file is there.
\<close>

definition Storage_new ::
  "(string \<Rightarrow> jsnum) \<Rightarrow> filesystem \<Rightarrow> string \<Rightarrow> (string \<times> descr) list \<Rightarrow> options
     \<Rightarrow> error + (filesystem \<times> jsnum option \<times> bool \<times> store)" where
  "Storage_new tn fs dir struct opts =
     (let fs' = createFile fs dir;
          timer = saveAuto tn opts;
          hooks = saveOnExit tn opts
      in (case fs' dir of
            None \<Rightarrow> Inl FileAccessError
          | Some f \<Rightarrow>
              (case JSON_parse f of
                 Inl e \<Rightarrow> Inl e
               | Inr rows \<Rightarrow>
                   (case structure_rows struct rows of
                      Inl e \<Rightarrow> Inl e
                    | Inr rows' \<Rightarrow>
                        Inr (fs', timer, hooks,
                             \<lparr>directory = dir, options = opts, structure = struct,
                              storage = rows'\<rparr>)))))"

section \<open>Sorting and queries\<close>

fun num_sub :: "jsnum \<Rightarrow> jsnum \<Rightarrow> jsnum" where
  "num_sub NaN b = NaN"
| "num_sub a NaN = NaN"
| "num_sub (Fin x) (Fin y) = Fin (x - y)"
| "num_sub (Fin x) PInf = NInf"
| "num_sub (Fin x) NInf = PInf"
| "num_sub PInf PInf = NaN"
| "num_sub PInf b = PInf"
| "num_sub NInf NInf = NaN"
| "num_sub NInf b = NInf"

fun num_pos :: "jsnum \<Rightarrow> bool" where
  "num_pos (Fin x) = (0 < x)"
| "num_pos PInf = True"
| "num_pos n = False"

text \<open>The comparator of \<^verbatim>\<open>#sort\<close>.\<close>

definition comparator :: "(string \<Rightarrow> jsnum) \<Rightarrow> string \<Rightarrow> string \<Rightarrow> obj \<Rightarrow> obj \<Rightarrow> jsnum" where
  "comparator tn field order a b =
     (if order = ''ascending''
      then num_sub (ToNumber tn (obj_get a field)) (ToNumber tn (obj_get b field))
      else num_sub (ToNumber tn (obj_get b field)) (ToNumber tn (obj_get a field)))"

text \<open>
  \<^verbatim>\<open>Array.prototype.sort\<close> with a comparator: a stable sort, here by insertion. An
  element moves behind another only when the comparator is positive; a \<^verbatim>\<open>NaN\<close> result
  counts as zero. For a consistent comparator every conforming engine returns this
  list; for an inconsistent one the language leaves the order to the engine.
\<close>

fun sort_insert :: "('a \<Rightarrow> 'a \<Rightarrow> jsnum) \<Rightarrow> 'a \<Rightarrow> 'a list \<Rightarrow> 'a list" where
  "sort_insert cmp x [] = [x]"
| "sort_insert cmp x (y # ys) =
     (if num_pos (cmp x y) then y # sort_insert cmp x ys else x # y # ys)"

fun array_sort :: "('a \<Rightarrow> 'a \<Rightarrow> jsnum) \<Rightarrow> 'a list \<Rightarrow> 'a list" where
  "array_sort cmp [] = []"
| "array_sort cmp (x # xs) = sort_insert cmp x (array_sort cmp xs)"

record sort_options =
  sort_field :: "string option"
  sort_order :: "string option"

definition sort_rows ::
  "(string \<Rightarrow> jsnum) \<Rightarrow> obj list \<Rightarrow> string option \<Rightarrow> string option \<Rightarrow> obj list" where
  "sort_rows tn array field order =
     array_sort
       (comparator tn (case field of None \<Rightarrow> ''id'' | Some f \<Rightarrow> f)
          (case order of None \<Rightarrow> ''ascending'' | Some d \<Rightarrow> d))
       array"

text \<open>
  \<^verbatim>\<open>getAll\<close> sorts \<^verbatim>\<open>this.storage\<close> itself and returns it: the result and the store
  whose sequence is now that result.
\<close>

definition getAll :: "(string \<Rightarrow> jsnum) \<Rightarrow> store \<Rightarrow> sort_options \<Rightarrow> obj list \<times> store" where
  "getAll tn s srt =
     (let sorted = sort_rows tn (storage s) (sort_field srt) (sort_order srt)
      in (sorted, s\<lparr>storage := sorted\<rparr>))"


section \<open>The object store\<close>

text \<open>
  \<^verbatim>\<open>ObjectStorage\<close> keeps one flat object; its schema is optional. \<^verbatim>\<open>#isCorrectType\<close>
  is only reached from \<^verbatim>\<open>set\<close> when the schema is present, so it takes that schema.
\<close>

record object_store =
  os_directory :: string
  os_options :: options
  os_structure :: "(string \<times> descr) list option"
  os_storage :: obj

definition ObjectStorage_isCorrectType ::
  "(string \<Rightarrow> jsnum) \<Rightarrow> options \<Rightarrow> (string \<times> descr) list \<Rightarrow> string \<Rightarrow> jsval \<Rightarrow> error + bool" where
  "ObjectStorage_isCorrectType tn opts struct key data =
     (if loose_eq tn (checkType opts) (JBool False)
      then Inr (key \<in> set (map fst struct) \<or> key \<in> set Object_prototype)
      else (case map_of struct key of
              Some d \<Rightarrow>
                Inr ((key \<in> set (map fst struct) \<or> key \<in> set Object_prototype)
                     \<and> typeof data = field_type d)
            | None \<Rightarrow>
                if key \<in> set Object_prototype
                then Inr ((key \<in> set (map fst struct) \<or> key \<in> set Object_prototype)
                          \<and> loose_eq tn (JStr (typeof data)) JUndefined)
                else Inl TypeError))"

definition ObjectStorage_set ::
  "(string \<Rightarrow> jsnum) \<Rightarrow> object_store \<Rightarrow> string \<Rightarrow> jsval \<Rightarrow> error + object_store" where
  "ObjectStorage_set tn os key v =
     (case os_structure os of
        Some struct \<Rightarrow>
          (case ObjectStorage_isCorrectType tn (os_options os) struct key v of
             Inl e \<Rightarrow> Inl e
           | Inr ok \<Rightarrow> Inr (if ok then os\<lparr>os_storage := assign key v (os_storage os)\<rparr> else os))
      | None \<Rightarrow> Inr (os\<lparr>os_storage := assign key v (os_storage os)\<rparr>))"

section \<open>Example stores\<close>

definition example_options :: options where
  "example_options = \<lparr>checkType = JUndefined, spaces = JUndefined, save_opts = None\<rparr>"

definition number_field :: descr where
  "number_field = \<lparr>field_type = ''number'', field_default = JUndefined, field_rename = None\<rparr>"

definition example_store :: store where
  "example_store =
     \<lparr>directory = ''users.json'', options = example_options,
      structure = [(''a'', number_field)],
      storage = [[(''id'', JNum (Fin 1)), (''a'', JNum (Fin 5))]]\<rparr>"

definition example_object_store :: object_store where
  "example_object_store =
     \<lparr>os_directory = ''apples.json'', os_options = example_options,
      os_structure = Some [(''a'', number_field)], os_storage = []\<rparr>"

definition auto_options :: "jsval \<Rightarrow> options" where
  "auto_options a =
     \<lparr>checkType = JUndefined, spaces = JUndefined,
      save_opts = Some \<lparr>auto = a, onExit = JUndefined\<rparr>\<rparr>"

section \<open>Reading the store in order\<close>

text \<open>
  \<^verbatim>\<open>forEach\<close> hands the callback the id and the row of each record in the order of
  \<^verbatim>\<open>this.storage\<close>; here for a callback that only observes, as the list of its calls.
\<close>

definition forEach :: "store \<Rightarrow> (jsval \<Rightarrow> obj \<Rightarrow> 'a) \<Rightarrow> 'a list" where
  "forEach s callback = map (\<lambda>row. callback (obj_get row ''id'') row) (storage s)"

text \<open>
  The number a row is compared by, and the order of numbers; \<^verbatim>\<open>NaN\<close> is comparable
  with nothing.
\<close>

definition sort_value :: "(string \<Rightarrow> jsnum) \<Rightarrow> string \<Rightarrow> obj \<Rightarrow> jsnum" where
  "sort_value tn field row = ToNumber tn (obj_get row field)"

fun num_le :: "jsnum \<Rightarrow> jsnum \<Rightarrow> bool" where
  "num_le NaN b = False"
| "num_le a NaN = False"
| "num_le NInf b = True"
| "num_le a PInf = True"
| "num_le (Fin x) (Fin y) = (x \<le> y)"
| "num_le a b = False"



definition no_sort_options :: sort_options where
  "no_sort_options = \<lparr>sort_field = None, sort_order = None\<rparr>"

definition unsorted_example :: "obj list" where
  "unsorted_example = [[(''id'', JNum (Fin 2))], [(''id'', JNum (Fin 1))]]"

section \<open>The value coercion gives a field\<close>

text \<open>
  What \<^verbatim>\<open>#createRow\<close> stores under a declared field, as one expression, and the
  schemas whose defaults have the declared type.
\<close>

definition default_or_null :: "descr \<Rightarrow> jsval" where
  "default_or_null d = nullish (field_default d) JNull"

definition coerced_value :: "(string \<Rightarrow> jsnum) \<Rightarrow> store \<Rightarrow> obj \<Rightarrow> string \<Rightarrow> jsval" where
  "coerced_value tn s values f =
     (case map_of (structure s) f of
        None \<Rightarrow> JUndefined
      | Some d \<Rightarrow>
          if loose_eq tn (checkType (options s)) (JBool False) \<or> typeof (obj_get values f) = field_type d
          then obj_get values f
          else default_or_null d)"

definition defaults_typed :: "(string \<times> descr) list \<Rightarrow> bool" where
  "defaults_typed struct =
     (\<forall>p \<in> set struct. field_default (snd p) \<noteq> JUndefined
        \<longrightarrow> typeof (field_default (snd p)) = field_type (snd p))"

definition number_default_zero :: descr where
  "number_default_zero =
     \<lparr>field_type = ''number'', field_default = JNum (Fin 0), field_rename = None\<rparr>"

definition defaults_store :: store where
  "defaults_store =
     \<lparr>directory = ''users.json'', options = example_options,
      structure = [(''a'', number_field), (''b'', number_default_zero)],
      storage = [[(''id'', JNum (Fin 1)), (''a'', JNum (Fin 5)), (''b'', JNum (Fin 0))]]\<rparr>"


definition renamed_number_field :: descr where
  "renamed_number_field =
     \<lparr>field_type = ''number'', field_default = JUndefined, field_rename = Some ''b''\<rparr>"

definition rename_file :: filesystem where
  "rename_file = [''users.json'' \<mapsto> Document [[(''id'', JsonNum 1), (''a'', JsonNum 5)]]]"

definition rename_store :: store where
  "rename_store =
     \<lparr>directory = ''users.json'', options = example_options,
      structure = [(''a'', renamed_number_field)],
      storage = [[(''id'', JNum (Fin 1)), (''b'', JNum (Fin 5))]]\<rparr>"

section \<open>Vocabulary for the update of a record\<close>



definition no_inherited_name :: "string list \<Rightarrow> bool" where
  "no_inherited_name names = list_all (\<lambda>k. k \<notin> set Object_prototype) names"

section \<open>Sequences of calls and unique identifiers\<close>

text \<open>
  A caller's sequence of \<^verbatim>\<open>add\<close> and \<^verbatim>\<open>set\<close> calls. A call that throws leaves the
  state it reached and the caller goes on from there; \<open>None\<close> says that a call has not
  finished within the random draws given.
\<close>

datatype call = Add jsval obj | Set jsval obj

fun apply_call ::
  "(string \<Rightarrow> jsnum) \<Rightarrow> call \<Rightarrow> store \<times> rat list \<Rightarrow> (store \<times> rat list) result" where
  "apply_call tn (Add i values) st = add tn (fst st) (snd st) i values"
| "apply_call tn (Set i values) st = set_values tn (fst st) (snd st) i values"

fun state_after :: "'a result \<Rightarrow> 'a option" where
  "state_after (Returned st) = Some st"
| "state_after (Threw e st) = Some st"
| "state_after Unfinished = None"

fun run :: "(string \<Rightarrow> jsnum) \<Rightarrow> call list \<Rightarrow> store \<times> rat list \<Rightarrow> (store \<times> rat list) option" where
  "run tn [] st = Some st"
| "run tn (c # cs) st =
     (case state_after (apply_call tn c st) of
        None \<Rightarrow> None
      | Some st' \<Rightarrow> run tn cs st')"

text \<open>No record's id is loosely equal to the id of a later record.\<close>

fun unique_ids :: "(string \<Rightarrow> jsnum) \<Rightarrow> obj list \<Rightarrow> bool" where
  "unique_ids tn [] = True"
| "unique_ids tn (row # rows) =
     (list_all (\<lambda>r. \<not> loose_eq tn (obj_get row ''id'') (obj_get r ''id'')) rows
      \<and> unique_ids tn rows)"

fun explicit_id :: "call \<Rightarrow> bool" where
  "explicit_id (Add i values) = (i \<noteq> JUndefined \<and> i \<noteq> JNull)"
| "explicit_id (Set i values) = (i \<noteq> JUndefined \<and> i \<noteq> JNull)"

definition id_store :: store where
  "id_store =
     \<lparr>directory = ''users.json'', options = example_options,
      structure = [(''id'', number_default_zero)], storage = []\<rparr>"

definition example_calls :: "call list" where
  "example_calls =
     [Add (JNum (Fin 1)) [(''a'', JNum (Fin 9))],
      Set (JNum (Fin 2)) [(''a'', JNum (Fin 7))],
      Add JUndefined []]"

section \<open>Vocabulary for saving and loading again\<close>

text \<open>
  A schema renames nothing when no field has a rename that changes its key. A value is
  kept by JSON when it is not \<^verbatim>\<open>NaN\<close> and not infinite. A record conforms to a schema
  when it has each key once, its keys are \<^verbatim>\<open>id\<close> and the schema's fields, and JSON
  keeps its values. Two records are the same when they have the same fields with the
  same values.
\<close>

definition renames_nothing :: "(string \<times> descr) list \<Rightarrow> bool" where
  "renames_nothing struct =
     list_all (\<lambda>p. case field_rename (snd p) of
                      None \<Rightarrow> True
                    | Some rename \<Rightarrow> rename = [] \<or> rename = fst p) struct"

fun json_keeps :: "jsval \<Rightarrow> bool" where
  "json_keeps (JNum (Fin q)) = True"
| "json_keeps (JNum n) = False"
| "json_keeps v = True"

definition conforms :: "(string \<times> descr) list \<Rightarrow> obj \<Rightarrow> bool" where
  "conforms struct row =
     (distinct (map fst row)
      \<and> fst ` set row = insert ''id'' (fst ` set struct)
      \<and> list_all json_keeps (map snd row))"



text \<open>The inputs of a call that JSON keeps: the id and the values given.\<close>

fun json_keeps_call :: "call \<Rightarrow> bool" where
  "json_keeps_call (Add i values) = (json_keeps i \<and> list_all json_keeps (map snd values))"
| "json_keeps_call (Set i values) = (json_keeps i \<and> list_all json_keeps (map snd values))"

definition json_keeps_defaults :: "(string \<times> descr) list \<Rightarrow> bool" where
  "json_keeps_defaults struct = list_all (\<lambda>p. json_keeps (field_default (snd p))) struct"

text \<open>A call whose values have no field with an inherited name.\<close>

fun plain_call :: "call \<Rightarrow> bool" where
  "plain_call (Add i values) = no_inherited_name (map fst values)"
| "plain_call (Set i values) = no_inherited_name (map fst values)"

section \<open>Mutation with a field the schema does not declare\<close>

text \<open>
  C1. The claim: \<^verbatim>\<open>set\<close>, \<^verbatim>\<open>add\<close>, \<^verbatim>\<open>delete\<close> and \<^verbatim>\<open>clear\<close> never raise on bad
  input; in particular \<^verbatim>\<open>set(id, values)\<close> on an existing id ignores a field the
  schema does not declare, with type checking enabled. The code: with the schema
  \<^verbatim>\<open>{a: {type: 'number'}}\<close>, the record \<^verbatim>\<open>{id: 1, a: 5}\<close> and default options,
  \<^verbatim>\<open>set(1, {b: 1})\<close> throws a \<^verbatim>\<open>TypeError\<close>, because \<^verbatim>\<open>#isCorrectType\<close> destructures
  \<^verbatim>\<open>this.structure[field]\<close> before it asks \<^verbatim>\<open>#isField\<close>. With \<^verbatim>\<open>checkType: false\<close>
  the same call returns and ignores the field, and \<^verbatim>\<open>ObjectStorage.set\<close> throws in the
  same way.
\<close>

theorem set_undeclared_field_throws:
  "get StringToNumber example_store (JNum (Fin 1)) = Some [(''id'', JNum (Fin 1)), (''a'', JNum (Fin 5))]
   \<and> set_values StringToNumber example_store [] (JNum (Fin 1)) [(''b'', JNum (Fin 1))]
       = Threw TypeError (example_store, [])
   \<and> set_values StringToNumber
         (example_store\<lparr>options := example_options\<lparr>checkType := JBool False\<rparr>\<rparr>) []
         (JNum (Fin 1)) [(''b'', JNum (Fin 1))]
       = Returned (example_store\<lparr>options := example_options\<lparr>checkType := JBool False\<rparr>\<rparr>, [])
   \<and> ObjectStorage_set StringToNumber example_object_store ''b'' (JNum (Fin 1)) = Inl TypeError"
  by (simp add: set_values_def get_def example_store_def example_options_def number_field_def
      isCorrectType_def isField_def obj_get_def ObjectStorage_set_def
      ObjectStorage_isCorrectType_def example_object_store_def Object_prototype_def)

section \<open>The autosave timer\<close>

lemma loose_eq_zero:
  "loose_eq tn a (JNum (Fin 0)) \<longleftrightarrow>
     a = JNum (Fin 0) \<or> a = JBool False \<or> (\<exists>str. a = JStr str \<and> tn str = Fin 0)"
proof (cases a)
  case (JNum n)
  then show ?thesis by (cases n) auto
next
  case (JStr str)
  then show ?thesis by (cases "tn str") auto
qed auto

lemma Storage_new_timer:
  "Storage_new tn fs dir struct opts = Inr (fs', timer, hooks, s) \<Longrightarrow> timer = saveAuto tn opts"
  by (auto simp: Storage_new_def Let_def split: option.splits sum.splits)

text \<open>
  C9, as the claim states it, fails: \<^verbatim>\<open>save.auto = false\<close> is not a number, and the
  constructor sets no timer, because the guard is \<^verbatim>\<open>save?.auto == 0\<close>.
\<close>

theorem saveAuto_false_counterexample:
  "typeof (JBool False) \<noteq> ''number''
   \<and> saveAuto StringToNumber (auto_options (JBool False)) = None
   \<and> saveAuto StringToNumber (auto_options (JBool False)) \<noteq> Some (Fin 60000)
   \<and> (\<exists>fs' hooks s. Storage_new StringToNumber Map.empty ''users.json'' []
          (auto_options (JBool False)) = Inr (fs', None, hooks, s))"
  by (simp add: saveAuto_def auto_options_def Storage_new_def createFile_def JSON_stringify_def
      Let_def)

text \<open>
  C9, amended. The constructor hands \<^verbatim>\<open>setInterval\<close> the delay \<^verbatim>\<open>save.auto * 1000\<close>
  when \<^verbatim>\<open>save.auto\<close> is a number other than zero, and the delay \<open>60000\<close> when
  \<^verbatim>\<open>save.auto\<close> is absent or is not a number and not loosely equal to zero; it sets no
  timer when \<^verbatim>\<open>save.auto == 0\<close>, which holds for \<open>0\<close> and also for \<^verbatim>\<open>false\<close> and
  for a string that denotes zero. The timer of a constructed store is the one
  \<^verbatim>\<open>#saveAuto\<close> decides.
\<close>

theorem saveAuto_policy:
  "(save_opts opts = Some sv \<and> auto sv = JNum n \<and> n \<noteq> Fin 0
      \<longrightarrow> saveAuto tn opts = Some (num_mul n (Fin 1000)))
   \<and> (save_opts opts = None
        \<or> (save_opts opts = Some sv \<and> typeof (auto sv) \<noteq> ''number''
            \<and> \<not> loose_eq tn (auto sv) (JNum (Fin 0)))
      \<longrightarrow> saveAuto tn opts = Some (Fin 60000))
   \<and> (save_opts opts = Some sv \<and> loose_eq tn (auto sv) (JNum (Fin 0))
      \<longrightarrow> saveAuto tn opts = None)
   \<and> (loose_eq tn a (JNum (Fin 0)) \<longleftrightarrow>
        a = JNum (Fin 0) \<or> a = JBool False \<or> (\<exists>str. a = JStr str \<and> tn str = Fin 0))
   \<and> (Storage_new tn fs dir struct opts = Inr (fs', timer, hooks, s)
      \<longrightarrow> timer = saveAuto tn opts)"
proof (intro conjI impI)
  assume "save_opts opts = Some sv \<and> auto sv = JNum n \<and> n \<noteq> Fin 0"
  then show "saveAuto tn opts = Some (num_mul n (Fin 1000))"
    by (cases n) (auto simp: saveAuto_def)
next
  assume "save_opts opts = None
    \<or> (save_opts opts = Some sv \<and> typeof (auto sv) \<noteq> ''number''
        \<and> \<not> loose_eq tn (auto sv) (JNum (Fin 0)))"
  then show "saveAuto tn opts = Some (Fin 60000)"
    by (auto simp: saveAuto_def)
next
  assume "save_opts opts = Some sv \<and> loose_eq tn (auto sv) (JNum (Fin 0))"
  then show "saveAuto tn opts = None"
    by (auto simp: saveAuto_def)
next
  show "loose_eq tn a (JNum (Fin 0)) \<longleftrightarrow>
        a = JNum (Fin 0) \<or> a = JBool False \<or> (\<exists>str. a = JStr str \<and> tn str = Fin 0)"
    by (rule loose_eq_zero)
next
  assume "Storage_new tn fs dir struct opts = Inr (fs', timer, hooks, s)"
  then show "timer = saveAuto tn opts" by (rule Storage_new_timer)
qed

theorem saveAuto_policy_witness:
  "saveAuto StringToNumber (auto_options (JNum (Fin 5))) = Some (Fin 5000)
   \<and> saveAuto StringToNumber example_options = Some (Fin 60000)
   \<and> saveAuto StringToNumber (auto_options (JStr ''never'')) = Some (Fin 60000)
   \<and> saveAuto StringToNumber (auto_options (JNum (Fin 0))) = None
   \<and> loose_eq StringToNumber (JStr ''0'') (JNum (Fin 0))
   \<and> (\<exists>fs' hooks s. Storage_new StringToNumber Map.empty ''users.json'' [] (auto_options (JNum (Fin 5)))
         = Inr (fs', Some (Fin 5000), hooks, s))"
proof -
  let ?five = "auto_options (JNum (Fin 5))"
  have five: "save_opts ?five = Some \<lparr>auto = JNum (Fin 5), onExit = JUndefined\<rparr>
      \<and> auto \<lparr>auto = JNum (Fin 5), onExit = JUndefined\<rparr> = JNum (Fin 5) \<and> Fin 5 \<noteq> Fin 0"
    by (simp add: auto_options_def)
  have c1: "saveAuto StringToNumber ?five = Some (Fin 5000)"
    using saveAuto_policy [of ?five "\<lparr>auto = JNum (Fin 5), onExit = JUndefined\<rparr>" "Fin 5" StringToNumber]
      five by simp
  have c2: "saveAuto StringToNumber example_options = Some (Fin 60000)"
    using saveAuto_policy [of example_options _ _ StringToNumber]
    by (simp add: example_options_def)
  have never: "StringToNumber ''never'' = NaN"
    by (simp add: StringToNumber_def)
  have c3: "saveAuto StringToNumber (auto_options (JStr ''never'')) = Some (Fin 60000)"
    using saveAuto_policy [of "auto_options (JStr ''never'')"
        "\<lparr>auto = JStr ''never'', onExit = JUndefined\<rparr>" _ StringToNumber] never
    by (simp add: auto_options_def)
  have c4: "saveAuto StringToNumber (auto_options (JNum (Fin 0))) = None"
    using saveAuto_policy [of "auto_options (JNum (Fin 0))"
        "\<lparr>auto = JNum (Fin 0), onExit = JUndefined\<rparr>" _ StringToNumber]
    by (simp add: auto_options_def)
  have zero: "StringToNumber ''0'' = Fin 0"
    by (simp add: StringToNumber_def)
  have c5: "loose_eq StringToNumber (JStr ''0'') (JNum (Fin 0))"
    using saveAuto_policy [of _ _ _ StringToNumber "JStr ''0''"] zero by simp
  obtain fs' timer hooks s where new:
    "Storage_new StringToNumber Map.empty ''users.json'' [] ?five = Inr (fs', timer, hooks, s)"
    by (simp add: Storage_new_def createFile_def JSON_stringify_def Let_def)
  have "timer = saveAuto StringToNumber ?five"
    using saveAuto_policy [of ?five _ _ StringToNumber _ Map.empty "''users.json''" "[]" fs' timer hooks s]
      new by simp
  with c1 new have c6: "\<exists>fs' hooks s. Storage_new StringToNumber Map.empty ''users.json'' []
      ?five = Inr (fs', Some (Fin 5000), hooks, s)"
    by auto
  from c1 c2 c3 c4 c5 c6 show ?thesis by simp
qed

section \<open>Sorting\<close>

lemma num_pos_sub: "a \<noteq> NaN \<Longrightarrow> b \<noteq> NaN \<Longrightarrow> num_pos (num_sub a b) \<longleftrightarrow> \<not> num_le a b"
  by (cases a; cases b) auto

lemma num_le_trans: "num_le a b \<Longrightarrow> num_le b c \<Longrightarrow> num_le a c"
  by (cases a; cases b; cases c) auto

lemma num_le_total: "a \<noteq> NaN \<Longrightarrow> b \<noteq> NaN \<Longrightarrow> num_le a b \<or> num_le b a"
  by (cases a; cases b) auto

lemma mset_sort_insert: "mset (sort_insert cmp x xs) = add_mset x (mset xs)"
  by (induction xs) auto

lemma mset_array_sort: "mset (array_sort cmp xs) = mset xs"
  by (induction xs) (auto simp: mset_sort_insert)

lemma set_array_sort: "set (array_sort cmp xs) = set xs"
  using mset_array_sort [of cmp xs] by (metis set_mset_mset)

lemma set_sort_insert: "set (sort_insert cmp x xs) = insert x (set xs)"
  by (induction xs) auto

lemma sorted_sort_insert:
  assumes cmp: "\<And>a b. a \<in> insert x (set xs) \<Longrightarrow> b \<in> insert x (set xs) \<Longrightarrow> num_pos (cmp a b) \<longleftrightarrow> \<not> le a b"
    and trans: "\<And>a b c. le a b \<Longrightarrow> le b c \<Longrightarrow> le a c"
    and total: "\<And>a b. a \<in> insert x (set xs) \<Longrightarrow> b \<in> insert x (set xs) \<Longrightarrow> le a b \<or> le b a"
    and sorted: "sorted_wrt le xs"
  shows "sorted_wrt le (sort_insert cmp x xs)"
  using cmp total sorted
proof (induction xs)
  case Nil
  then show ?case by simp
next
  case (Cons y ys)
  have ys: "sorted_wrt le ys" and y_le: "\<forall>z \<in> set ys. le y z"
    using Cons.prems(3) by simp_all
  show ?case
  proof (cases "num_pos (cmp x y)")
    case True
    then have "\<not> le x y" using Cons.prems(1) [of x y] by simp
    then have yx: "le y x" using Cons.prems(2) [of x y] by auto
    have "sorted_wrt le (sort_insert cmp x ys)"
    proof (rule Cons.IH)
      show "\<And>a b. a \<in> insert x (set ys) \<Longrightarrow> b \<in> insert x (set ys) \<Longrightarrow> num_pos (cmp a b) = (\<not> le a b)"
        using Cons.prems(1) by auto
      show "\<And>a b. a \<in> insert x (set ys) \<Longrightarrow> b \<in> insert x (set ys) \<Longrightarrow> le a b \<or> le b a"
        using Cons.prems(2) by auto
      show "sorted_wrt le ys" by (rule ys)
    qed
    moreover have "\<forall>z \<in> set (sort_insert cmp x ys). le y z"
      using yx y_le by (simp add: set_sort_insert)
    ultimately show ?thesis using True by simp
  next
    case False
    then have xy: "le x y" using Cons.prems(1) [of x y] by simp
    have "\<forall>z \<in> set ys. le x z"
      using xy y_le trans by blast
    then show ?thesis using False xy ys y_le by simp
  qed
qed

lemma sorted_array_sort:
  assumes cmp: "\<And>a b. a \<in> set xs \<Longrightarrow> b \<in> set xs \<Longrightarrow> num_pos (cmp a b) \<longleftrightarrow> \<not> le a b"
    and trans: "\<And>a b c. le a b \<Longrightarrow> le b c \<Longrightarrow> le a c"
    and total: "\<And>a b. a \<in> set xs \<Longrightarrow> b \<in> set xs \<Longrightarrow> le a b \<or> le b a"
  shows "sorted_wrt le (array_sort cmp xs)"
  using cmp total
proof (induction xs)
  case Nil
  then show ?case by simp
next
  case (Cons x xs)
  have IH: "sorted_wrt le (array_sort cmp xs)"
  proof (rule Cons.IH)
    show "\<And>a b. a \<in> set xs \<Longrightarrow> b \<in> set xs \<Longrightarrow> num_pos (cmp a b) = (\<not> le a b)"
      using Cons.prems(1) by auto
    show "\<And>a b. a \<in> set xs \<Longrightarrow> b \<in> set xs \<Longrightarrow> le a b \<or> le b a"
      using Cons.prems(2) by auto
  qed
  have "sorted_wrt le (sort_insert cmp x (array_sort cmp xs))"
  proof (rule sorted_sort_insert)
    show "\<And>a b. a \<in> insert x (set (array_sort cmp xs)) \<Longrightarrow> b \<in> insert x (set (array_sort cmp xs))
        \<Longrightarrow> num_pos (cmp a b) = (\<not> le a b)"
      using Cons.prems(1) by (auto simp: set_array_sort)
    show "\<And>a b c. le a b \<Longrightarrow> le b c \<Longrightarrow> le a c" by (rule trans)
    show "\<And>a b. a \<in> insert x (set (array_sort cmp xs)) \<Longrightarrow> b \<in> insert x (set (array_sort cmp xs))
        \<Longrightarrow> le a b \<or> le b a"
      using Cons.prems(2) by (auto simp: set_array_sort)
    show "sorted_wrt le (array_sort cmp xs)" by (rule IH)
  qed
  then show ?case by simp
qed

lemma sort_rows_ascending:
  assumes "\<forall>row \<in> set rows. sort_value tn field row \<noteq> NaN"
  shows "sorted_wrt (\<lambda>x y. num_le (sort_value tn field x) (sort_value tn field y))
           (array_sort (comparator tn field ''ascending'') rows)"
proof (rule sorted_array_sort)
  show "\<And>a b. a \<in> set rows \<Longrightarrow> b \<in> set rows \<Longrightarrow>
      num_pos (comparator tn field ''ascending'' a b)
        = (\<not> num_le (sort_value tn field a) (sort_value tn field b))"
    using assms by (simp add: comparator_def sort_value_def num_pos_sub)
  show "\<And>a b c. num_le (sort_value tn field a) (sort_value tn field b) \<Longrightarrow>
      num_le (sort_value tn field b) (sort_value tn field c) \<Longrightarrow>
      num_le (sort_value tn field a) (sort_value tn field c)"
    by (rule num_le_trans)
  show "\<And>a b. a \<in> set rows \<Longrightarrow> b \<in> set rows \<Longrightarrow>
      num_le (sort_value tn field a) (sort_value tn field b)
      \<or> num_le (sort_value tn field b) (sort_value tn field a)"
    using assms by (simp add: num_le_total)
qed





lemma getAll_result:
  assumes "getAll tn s srt = (rows, s')"
  shows "sort_rows tn (storage s) (sort_field srt) (sort_order srt) = rows"
    and "s' = s\<lparr>storage := rows\<rparr>"
  using assms unfolding getAll_def Let_def by blast+

text \<open>
  C10. \<^verbatim>\<open>getAll\<close> sorts \<^verbatim>\<open>this.storage\<close> in place and returns it: after the call the
  store's sequence is the returned, sorted one (the same rows, the other members of the
  store unchanged); a following \<^verbatim>\<open>save\<close> writes it and a following \<^verbatim>\<open>forEach\<close> visits
  it in that order. Without an argument the order is ascending by id, where the ids
  convert to numbers. The insertion order is lost: a store that held the ids 2, 1 holds
  1, 2 afterwards.
\<close>

theorem getAll_sorts_in_place:
  "getAll tn s srt = (rows, s') \<longrightarrow>
     storage s' = rows
     \<and> sort_rows tn (storage s) (sort_field srt) (sort_order srt) = rows
     \<and> mset rows = mset (storage s)
     \<and> directory s' = directory s \<and> options s' = options s \<and> structure s' = structure s
     \<and> fst (save fs s') (directory s) = Some (JSON_stringify rows)
     \<and> forEach s' callback = map (\<lambda>row. callback (obj_get row ''id'') row) rows
     \<and> (srt = no_sort_options \<and> (\<forall>row \<in> set (storage s). sort_value tn ''id'' row \<noteq> NaN)
          \<longrightarrow> sorted_wrt (\<lambda>x y. num_le (sort_value tn ''id'' x) (sort_value tn ''id'' y))
                (storage s'))"
proof
  assume call: "getAll tn s srt = (rows, s')"
  note rows = getAll_result(1) [OF call] and s' = getAll_result(2) [OF call]
  have stored: "storage s' = rows" by (simp add: s')
  have perm: "mset rows = mset (storage s)"
    using rows by (simp add: sort_rows_def mset_array_sort flip: rows)
  have frame: "directory s' = directory s" "options s' = options s" "structure s' = structure s"
    by (simp_all add: s')
  have saved: "fst (save fs s') (directory s) = Some (JSON_stringify rows)"
    by (simp add: save_def s')
  have visits: "forEach s' callback = map (\<lambda>row. callback (obj_get row ''id'') row) rows"
    by (simp add: forEach_def s')
  have sorted: "sorted_wrt (\<lambda>x y. num_le (sort_value tn ''id'' x) (sort_value tn ''id'' y)) (storage s')"
    if "srt = no_sort_options \<and> (\<forall>row \<in> set (storage s). sort_value tn ''id'' row \<noteq> NaN)"
  proof -
    from that have srt: "srt = no_sort_options"
      and keys: "\<forall>row \<in> set (storage s). sort_value tn ''id'' row \<noteq> NaN"
      by simp_all
    have "array_sort (comparator tn ''id'' ''ascending'') (storage s) = rows"
      using rows by (simp add: srt sort_rows_def no_sort_options_def)
    then show ?thesis
      using sort_rows_ascending [OF keys] by (simp add: stored)
  qed
  from stored rows perm frame saved visits sorted
  show "storage s' = rows
     \<and> sort_rows tn (storage s) (sort_field srt) (sort_order srt) = rows
     \<and> mset rows = mset (storage s)
     \<and> directory s' = directory s \<and> options s' = options s \<and> structure s' = structure s
     \<and> fst (save fs s') (directory s) = Some (JSON_stringify rows)
     \<and> forEach s' callback = map (\<lambda>row. callback (obj_get row ''id'') row) rows
     \<and> (srt = no_sort_options \<and> (\<forall>row \<in> set (storage s). sort_value tn ''id'' row \<noteq> NaN)
          \<longrightarrow> sorted_wrt (\<lambda>x y. num_le (sort_value tn ''id'' x) (sort_value tn ''id'' y))
                (storage s'))"
    by blast
qed
theorem getAll_sorts_in_place_witness:
  "getAll StringToNumber (example_store\<lparr>storage := unsorted_example\<rparr>) no_sort_options
     = ([[(''id'', JNum (Fin 1))], [(''id'', JNum (Fin 2))]],
        example_store\<lparr>storage := [[(''id'', JNum (Fin 1))], [(''id'', JNum (Fin 2))]]\<rparr>)
   \<and> [[(''id'', JNum (Fin 1))], [(''id'', JNum (Fin 2))]] \<noteq> unsorted_example
   \<and> sorted_wrt (\<lambda>x y. num_le (sort_value StringToNumber ''id'' x) (sort_value StringToNumber ''id'' y))
       [[(''id'', JNum (Fin 1))], [(''id'', JNum (Fin 2))]]
   \<and> fst (save Map.empty (example_store\<lparr>storage := [[(''id'', JNum (Fin 1))], [(''id'', JNum (Fin 2))]]\<rparr>))
        ''users.json''
     = Some (JSON_stringify [[(''id'', JNum (Fin 1))], [(''id'', JNum (Fin 2))]])"
proof -
  let ?s = "example_store\<lparr>storage := unsorted_example\<rparr>"
  let ?rows = "[[(''id'', JNum (Fin 1))], [(''id'', JNum (Fin 2))]]"
  let ?s' = "example_store\<lparr>storage := ?rows\<rparr>"
  have call: "getAll StringToNumber ?s no_sort_options = (?rows, ?s')"
    by (simp add: getAll_def sort_rows_def comparator_def unsorted_example_def
        no_sort_options_def obj_get_def Let_def)
  have keys: "\<forall>row \<in> set unsorted_example. sort_value StringToNumber ''id'' row \<noteq> NaN"
    by (simp add: unsorted_example_def sort_value_def obj_get_def)
  then have hyp: "no_sort_options = no_sort_options
      \<and> (\<forall>row \<in> set (storage ?s). sort_value StringToNumber ''id'' row \<noteq> NaN)"
    by simp
  note after = getAll_sorts_in_place [where tn = StringToNumber and s = ?s and srt = no_sort_options
      and rows = ?rows and s' = ?s' and fs = Map.empty
      and callback = "\<lambda>i row. i", THEN mp, OF call]
  from after [THEN conjunct2, THEN conjunct2, THEN conjunct2, THEN conjunct2, THEN conjunct2,
      THEN conjunct2, THEN conjunct2, THEN conjunct2, THEN mp, OF hyp]
  have sorted: "sorted_wrt (\<lambda>x y. num_le (sort_value StringToNumber ''id'' x) (sort_value StringToNumber ''id'' y))
       ?rows"
    by simp
  from after [THEN conjunct2, THEN conjunct2, THEN conjunct2, THEN conjunct2, THEN conjunct2,
      THEN conjunct2, THEN conjunct1]
  have saved: "fst (save Map.empty ?s') ''users.json'' = Some (JSON_stringify ?rows)"
    by (simp add: example_store_def)
  have lost: "?rows \<noteq> unsorted_example"
    by (simp add: unsorted_example_def)
  from call lost sorted saved show ?thesis by (intro conjI)
qed

section \<open>Coercion\<close>

lemma map_of_assign: "map_of (assign k v ob) = (map_of ob)(k \<mapsto> v)"
  by (induction ob) (auto simp: fun_eq_iff)

lemma obj_get_assign: "obj_get (assign k v ob) k' = (if k' = k then v else obj_get ob k')"
  by (simp add: obj_get_def map_of_assign)

lemma keys_assign: "fst ` set (assign k v ob) = insert k (fst ` set ob)"
  by (induction ob) auto

lemma obj_get_fold_assign:
  "obj_get (fold (\<lambda>k. assign k (g k)) keys prev) k'
     = (if k' \<in> set keys then g k' else obj_get prev k')"
  by (induction keys arbitrary: prev) (auto simp: obj_get_assign)

lemma keys_fold_assign:
  "fst ` set (fold (\<lambda>k. assign k (g k)) keys prev) = set keys \<union> fst ` set prev"
  by (induction keys arbitrary: prev) (simp_all add: keys_assign)

lemma fold_assign_cong:
  "(\<And>k. k \<in> set keys \<Longrightarrow> g k = h k) \<Longrightarrow>
     fold (\<lambda>k. assign k (g k)) keys prev = fold (\<lambda>k. assign k (h k)) keys prev"
  by (induction keys arbitrary: prev) auto

lemma map_of_declared:
  "k \<in> set (map fst struct) \<Longrightarrow> \<exists>d. map_of struct k = Some d"
  by (induction struct) auto

lemma isCorrectType_declared:
  assumes "map_of (structure s) f = Some d"
  shows "isCorrectType tn s f v
      = Inr (loose_eq tn (checkType (options s)) (JBool False) \<or> typeof v = field_type d)"
proof -
  from assms have "f \<in> set (map fst (structure s))"
    by (metis map_of_eq_None_iff option.distinct(1) set_map)
  with assms show ?thesis by (auto simp: isCorrectType_def isField_def)
qed

lemma createRow_reduce_fold:
  "set keys \<subseteq> set (map fst (structure s)) \<Longrightarrow>
     createRow_reduce tn s values keys previous
       = Inr (fold (\<lambda>k. assign k (coerced_value tn s values k)) keys previous)"
proof (induction keys arbitrary: previous)
  case Nil
  then show ?case by simp
next
  case (Cons k keys)
  then obtain d where d: "map_of (structure s) k = Some d"
    using map_of_declared [of k "structure s"] by auto
  from Cons.prems have rest: "set keys \<subseteq> set (map fst (structure s))" by simp
  show ?case
    using d by (simp add: isCorrectType_declared [OF d] Cons.IH [OF rest] coerced_value_def
        default_or_null_def)
qed

lemma createRow_fold:
  "createRow tn s values
     = Inr (fold (\<lambda>k. assign k (coerced_value tn s values k)) (map fst (structure s)) [])"
  by (simp add: createRow_def createRow_reduce_fold)

lemma coerced_value_idem:
  assumes "obj_get row f = coerced_value tn s values f"
  shows "coerced_value tn s row f = coerced_value tn s values f"
  using assms by (auto simp: coerced_value_def split: option.splits)





text \<open>
  C8. Coercing the output of coercion gives that output again: \<^verbatim>\<open>#createRow\<close> returns
  a record, and applied to that record it returns the same record. The hypothesis of the
  claim, that every declared default has the declared type, is kept as it is stated.
\<close>

theorem coercion_idempotent:
  "defaults_typed (structure s) \<longrightarrow>
     (\<exists>row. createRow tn s values = Inr row \<and> createRow tn s row = Inr row)"
proof
  let ?keys = "map fst (structure s)"
  let ?row = "fold (\<lambda>k. assign k (coerced_value tn s values k)) ?keys []"
  have first: "createRow tn s values = Inr ?row" by (rule createRow_fold)
  have same: "coerced_value tn s ?row k = coerced_value tn s values k" if "k \<in> set ?keys" for k
  proof (rule coerced_value_idem)
    from that show "obj_get ?row k = coerced_value tn s values k"
      by (simp add: obj_get_fold_assign)
  qed
  have "createRow tn s ?row = Inr (fold (\<lambda>k. assign k (coerced_value tn s ?row k)) ?keys [])"
    by (rule createRow_fold)
  also have "fold (\<lambda>k. assign k (coerced_value tn s ?row k)) ?keys [] = ?row"
    by (rule fold_assign_cong) (rule same)
  finally have "createRow tn s ?row = Inr ?row" .
  with first show "\<exists>row. createRow tn s values = Inr row \<and> createRow tn s row = Inr row"
    by blast
qed

theorem coercion_idempotent_witness:
  "createRow StringToNumber defaults_store [(''a'', JStr ''bad'')]
     = Inr [(''a'', JNull), (''b'', JNum (Fin 0))]
   \<and> createRow StringToNumber defaults_store [(''a'', JNull), (''b'', JNum (Fin 0))]
     = Inr [(''a'', JNull), (''b'', JNum (Fin 0))]"
proof -
  have typed: "defaults_typed (structure defaults_store)"
    by (simp add: defaults_typed_def defaults_store_def number_field_def number_default_zero_def)
  have first: "createRow StringToNumber defaults_store [(''a'', JStr ''bad'')]
     = Inr [(''a'', JNull), (''b'', JNum (Fin 0))]"
    by (simp add: createRow_def defaults_store_def example_options_def number_field_def
        number_default_zero_def isCorrectType_def isField_def obj_get_def nullish_def)
  from coercion_idempotent [of defaults_store StringToNumber "[(''a'', JStr ''bad'')]", THEN mp, OF typed]
  obtain row where "createRow StringToNumber defaults_store [(''a'', JStr ''bad'')] = Inr row"
    and "createRow StringToNumber defaults_store row = Inr row"
    by blast
  with first show ?thesis by simp
qed

section \<open>Renamed fields\<close>

text \<open>
  C2. The claim: every record the store produces holds a renamed field under the new
  key. The code: with the schema \<^verbatim>\<open>{a: {type: 'number', rename: 'b'}}\<close> and the file
  \<^verbatim>\<open>[{"id": 1, "a": 5}]\<close>, the constructor loads \<^verbatim>\<open>{id: 1, b: 5}\<close>, and then
  \<^verbatim>\<open>add(2, {a: 7})\<close> appends \<^verbatim>\<open>{id: 2, a: 7}\<close> and \<^verbatim>\<open>set(3, {a: 8})\<close> appends
  \<^verbatim>\<open>{id: 3, a: 8}\<close>: \<^verbatim>\<open>#structure\<close> applies the rename, \<^verbatim>\<open>#createRow\<close> does not.
\<close>

theorem add_ignores_rename:
  "Storage_new StringToNumber rename_file ''users.json'' [(''a'', renamed_number_field)] example_options
     = Inr (rename_file, Some (Fin 60000), True, rename_store)
   \<and> add StringToNumber rename_store [] (JNum (Fin 2)) [(''a'', JNum (Fin 7))]
     = Returned (rename_store\<lparr>storage :=
         [[(''id'', JNum (Fin 1)), (''b'', JNum (Fin 5))],
          [(''id'', JNum (Fin 2)), (''a'', JNum (Fin 7))]]\<rparr>, [])
   \<and> set_values StringToNumber rename_store [] (JNum (Fin 3)) [(''a'', JNum (Fin 8))]
     = Returned (rename_store\<lparr>storage :=
         [[(''id'', JNum (Fin 1)), (''b'', JNum (Fin 5))],
          [(''id'', JNum (Fin 3)), (''a'', JNum (Fin 8))]]\<rparr>, [])"
proof (intro conjI)
  have "createFile rename_file ''users.json'' = rename_file"
    by (simp add: createFile_def rename_file_def)
  then show "Storage_new StringToNumber rename_file ''users.json'' [(''a'', renamed_number_field)]
      example_options = Inr (rename_file, Some (Fin 60000), True, rename_store)"
    by (simp add: Storage_new_def Let_def saveAuto_def saveOnExit_def example_options_def
        rename_store_def renamed_number_field_def obj_get_def)
      (simp add: rename_file_def obj_get_def)
  have row: "createRow StringToNumber rename_store vals
      = Inr [(''a'', if typeof (obj_get vals ''a'') = ''number'' then obj_get vals ''a'' else JNull)]"
    for vals
    by (simp add: createRow_def rename_store_def example_options_def renamed_number_field_def
        isCorrectType_def isField_def nullish_def)
  show "add StringToNumber rename_store [] (JNum (Fin 2)) [(''a'', JNum (Fin 7))]
     = Returned (rename_store\<lparr>storage :=
         [[(''id'', JNum (Fin 1)), (''b'', JNum (Fin 5))],
          [(''id'', JNum (Fin 2)), (''a'', JNum (Fin 7))]]\<rparr>, [])"
    by (simp add: add_def push_row_def row get_def obj_get_def) (simp add: rename_store_def obj_get_def)
  show "set_values StringToNumber rename_store [] (JNum (Fin 3)) [(''a'', JNum (Fin 8))]
     = Returned (rename_store\<lparr>storage :=
         [[(''id'', JNum (Fin 1)), (''b'', JNum (Fin 5))],
          [(''id'', JNum (Fin 3)), (''a'', JNum (Fin 8))]]\<rparr>, [])"
    by (simp add: set_values_def push_row_def row get_def obj_get_def) (simp add: rename_store_def obj_get_def)
qed

section \<open>Updating a record\<close>

lemma findIndex_bounds: "- 1 \<le> findIndex P xs \<and> findIndex P xs < int (length xs)"
  by (induction xs) (auto simp: Let_def)















section \<open>Unique identifiers\<close>

lemma num_eq_sym: "num_eq a b = num_eq b a"
  by (cases a; cases b) auto

lemma loose_eq_sym: "loose_eq tn a b = loose_eq tn b a"
  by (cases a; cases b) (auto simp: num_eq_sym)

lemma unique_ids_append:
  "unique_ids tn (rows @ [row]) \<longleftrightarrow>
     unique_ids tn rows
     \<and> list_all (\<lambda>r. \<not> loose_eq tn (obj_get r ''id'') (obj_get row ''id'')) rows"
  by (induction rows) auto

lemma unique_ids_nth:
  "unique_ids tn rows \<longleftrightarrow>
     (\<forall>i j. i < j \<and> j < length rows
        \<longrightarrow> \<not> loose_eq tn (obj_get (rows ! i) ''id'') (obj_get (rows ! j) ''id''))"
proof (induction rows)
  case Nil
  then show ?case by simp
next
  case (Cons row rows)
  show ?case
  proof
    assume u: "unique_ids tn (row # rows)"
    show "\<forall>i j. i < j \<and> j < length (row # rows)
        \<longrightarrow> \<not> loose_eq tn (obj_get ((row # rows) ! i) ''id'') (obj_get ((row # rows) ! j) ''id'')"
    proof (intro allI impI)
      fix i j assume ij: "i < j \<and> j < length (row # rows)"
      then obtain j' where j: "j = Suc j'" by (cases j) auto
      show "\<not> loose_eq tn (obj_get ((row # rows) ! i) ''id'') (obj_get ((row # rows) ! j) ''id'')"
      proof (cases i)
        case 0
        with u ij j show ?thesis by (auto simp: list_all_iff)
      next
        case (Suc i')
        with u ij j Cons.IH show ?thesis by auto
      qed
    qed
  next
    assume a: "\<forall>i j. i < j \<and> j < length (row # rows)
        \<longrightarrow> \<not> loose_eq tn (obj_get ((row # rows) ! i) ''id'') (obj_get ((row # rows) ! j) ''id'')"
    have "list_all (\<lambda>r. \<not> loose_eq tn (obj_get row ''id'') (obj_get r ''id'')) rows"
      unfolding list_all_iff
    proof
      fix r assume "r \<in> set rows"
      then obtain n where "n < length rows" "rows ! n = r" by (auto simp: in_set_conv_nth)
      with a [rule_format, of 0 "Suc n"]
      show "\<not> loose_eq tn (obj_get row ''id'') (obj_get r ''id'')" by simp
    qed
    moreover have "unique_ids tn rows"
      unfolding Cons.IH
    proof (intro allI impI)
      fix i j assume "i < j \<and> j < length rows"
      with a [rule_format, of "Suc i" "Suc j"]
      show "\<not> loose_eq tn (obj_get (rows ! i) ''id'') (obj_get (rows ! j) ''id'')" by simp
    qed
    ultimately show "unique_ids tn (row # rows)" by simp
  qed
qed

lemma unique_ids_same_ids:
  "map (\<lambda>r. obj_get r ''id'') rows' = map (\<lambda>r. obj_get r ''id'') rows \<Longrightarrow>
     unique_ids tn rows' = unique_ids tn rows"
proof (induction rows arbitrary: rows')
  case Nil
  then show ?case by simp
next
  case (Cons row rows)
  then obtain r' rs' where rows': "rows' = r' # rs'"
    and hd: "obj_get r' ''id'' = obj_get row ''id''"
    and tl: "map (\<lambda>r. obj_get r ''id'') rs' = map (\<lambda>r. obj_get r ''id'') rows"
    by (cases rows') auto
  have "list_all (\<lambda>r. \<not> loose_eq tn (obj_get row ''id'') (obj_get r ''id'')) rs'
      = list_all (\<lambda>r. \<not> loose_eq tn (obj_get row ''id'') r) (map (\<lambda>r. obj_get r ''id'') rs')"
    by (simp add: list_all_iff)
  also have "\<dots> = list_all (\<lambda>r. \<not> loose_eq tn (obj_get row ''id'') (obj_get r ''id'')) rows"
    unfolding tl by (simp add: list_all_iff)
  finally show ?case
    using Cons.IH [OF tl] by (simp add: rows' hd)
qed

lemma get_None_iff:
  "get tn s i = None \<longleftrightarrow> list_all (\<lambda>r. \<not> loose_eq tn (obj_get r ''id'') i) (storage s)"
  by (auto simp: get_def find_None_iff list_all_iff)

lemma generateID_free:
  "generateID tn s rnd = Some (i, rnd') \<Longrightarrow> get tn s i = None"
  by (induction rnd) (auto simp: Let_def split: if_splits)

lemma generateID_returns:
  "\<exists>u \<in> set rnd. get tn s (JNum (Fin (of_int \<lfloor>u * (2147483648 - 0 + 1)\<rfloor> + 0))) = None \<Longrightarrow>
     generateID tn s rnd \<noteq> None"
  by (induction rnd) (auto simp: Let_def)

lemma passing_field_declared:
  "isCorrectType tn s f v = Inr True \<Longrightarrow>
     f \<in> fst ` set (structure s) \<or> f \<in> set Object_prototype"
  by (auto simp: isCorrectType_def isField_def split: if_splits option.splits)

lemma id_not_inherited: "''id'' \<notin> set Object_prototype"
  by (simp add: Object_prototype_def)

lemma set_entries_keeps:
  "k \<notin> fst ` set (structure s) \<Longrightarrow> k \<notin> set Object_prototype \<Longrightarrow>
     obj_get (fst (set_entries tn s vs row)) k = obj_get row k"
proof (induction vs arbitrary: row)
  case Nil
  then show ?case by simp
next
  case (Cons p ps)
  show ?case
  proof (cases "isCorrectType tn s (fst p) (snd p)")
    case (Inl e)
    then show ?thesis by simp
  next
    case (Inr ok)
    show ?thesis
    proof (cases ok)
      case True
      with Inr have "fst p \<in> fst ` set (structure s) \<or> fst p \<in> set Object_prototype"
        by (simp add: passing_field_declared)
      with Cons.prems have "fst p \<noteq> k" by auto
      then show ?thesis using Inr True Cons.IH [OF Cons.prems] by (simp add: obj_get_assign)
    next
      case False
      then show ?thesis using Inr Cons.IH [OF Cons.prems] by simp
    qed
  qed
qed

lemma map_of_spread:
  "map_of (spread base ob) k
     = (case map_of (rev ob) k of Some v \<Rightarrow> Some v | None \<Rightarrow> map_of base k)"
proof (induction ob arbitrary: base)
  case Nil
  then show ?case by simp
next
  case (Cons p ps)
  show ?case
    by (simp add: Cons.IH map_of_assign map_add_def split: option.splits)
qed

lemma obj_get_spread_other:
  "k \<notin> fst ` set ob \<Longrightarrow> obj_get (spread base ob) k = obj_get base k"
proof -
  assume "k \<notin> fst ` set ob"
  then have "map_of (rev ob) k = None" by (simp add: map_of_eq_None_iff)
  then show ?thesis by (simp add: obj_get_def map_of_spread)
qed
lemma push_row_unique:
  assumes noid: "''id'' \<notin> fst ` set (structure s)"
    and u: "unique_ids tn (storage s)"
    and free: "get tn s i = None"
    and after: "state_after (push_row tn s rnd i vs) = Some (s', rnd')"
  shows "unique_ids tn (storage s') \<and> structure s' = structure s"
proof -
  let ?gen = "if i = JUndefined \<or> i = JNull then generateID tn s rnd else Some (i, rnd)"
  let ?row = "fold (\<lambda>k. assign k (coerced_value tn s vs k)) (map fst (structure s)) []"
  have row: "createRow tn s vs = Inr ?row" by (rule createRow_fold)
  from after obtain i' rnd1 where gen: "?gen = Some (i', rnd1)"
    by (cases ?gen) (auto simp: push_row_def)
  have free': "get tn s i' = None"
  proof (cases "i = JUndefined \<or> i = JNull")
    case True
    with gen have "generateID tn s rnd = Some (i', rnd1)" by simp
    then show ?thesis by (rule generateID_free)
  next
    case False
    with gen free show ?thesis by simp
  qed
  have pushed: "push_row tn s rnd i vs
      = Returned (s\<lparr>storage := storage s @ [spread [(''id'', i')] ?row]\<rparr>, rnd1)"
    using gen by (simp add: push_row_def row)
  with after have s': "s' = s\<lparr>storage := storage s @ [spread [(''id'', i')] ?row]\<rparr>"
    by simp
  have "''id'' \<notin> fst ` set ?row"
    using noid by (simp add: keys_fold_assign)
  then have "obj_get (spread [(''id'', i')] ?row) ''id'' = obj_get [(''id'', i')] ''id''"
    by (rule obj_get_spread_other)
  then have "obj_get (spread [(''id'', i')] ?row) ''id'' = i'"
    by (simp add: obj_get_def)
  then have "unique_ids tn (storage s @ [spread [(''id'', i')] ?row])"
    using u free' by (simp add: unique_ids_append get_None_iff)
  then show ?thesis by (simp add: s')
qed

lemma map_id_update:
  "n < length rows \<Longrightarrow> obj_get row ''id'' = obj_get (rows ! n) ''id'' \<Longrightarrow>
     map (\<lambda>r. obj_get r ''id'') (rows[n := row]) = map (\<lambda>r. obj_get r ''id'') rows"
  by (simp add: map_update list_update_same_conv)

lemma set_existing_unique:
  assumes noid: "''id'' \<notin> fst ` set (structure s)"
    and u: "unique_ids tn (storage s)"
    and found: "get tn s i \<noteq> None"
    and after: "state_after (set_values tn s rnd i vs) = Some (s', rnd')"
  shows "unique_ids tn (storage s') \<and> structure s' = structure s"
proof -
  let ?n = "findIndex (\<lambda>row. loose_eq tn (obj_get row ''id'') i) (storage s)"
  show ?thesis
  proof (cases "?n < 0 \<or> int (length (storage s)) \<le> ?n")
    case True
    with found after have "s' = s" by (simp add: set_values_def Let_def)
    with u show ?thesis by simp
  next
    case False
    then have n: "nat ?n < length (storage s)" by linarith
    let ?old = "storage s ! nat ?n"
    let ?new = "fst (set_entries tn s vs ?old)"
    have "set_values tn s rnd i vs
        = (case set_entries tn s vs ?old of
             (row, None) \<Rightarrow> Returned (s\<lparr>storage := (storage s)[nat ?n := row]\<rparr>, rnd)
           | (row, Some e) \<Rightarrow> Threw e (s\<lparr>storage := (storage s)[nat ?n := row]\<rparr>, rnd))"
      using found False by (simp add: set_values_def Let_def)
    with after have s': "s' = s\<lparr>storage := (storage s)[nat ?n := ?new]\<rparr>"
      by (cases "set_entries tn s vs ?old") (auto split: option.splits)
    have "obj_get ?new ''id'' = obj_get ?old ''id''"
      using noid id_not_inherited by (rule set_entries_keeps)
    then have "map (\<lambda>r. obj_get r ''id'') ((storage s)[nat ?n := ?new])
        = map (\<lambda>r. obj_get r ''id'') (storage s)"
      using n by (simp add: map_id_update)
    then have "unique_ids tn ((storage s)[nat ?n := ?new]) = unique_ids tn (storage s)"
      by (rule unique_ids_same_ids)
    with u show ?thesis by (simp add: s')
  qed
qed

lemma apply_call_unique:
  assumes noid: "''id'' \<notin> fst ` set (structure s)"
    and u: "unique_ids tn (storage s)"
    and after: "state_after (apply_call tn c (s, rnd)) = Some (s', rnd')"
  shows "unique_ids tn (storage s') \<and> structure s' = structure s"
proof (cases c)
  case (Add i vs)
  show ?thesis
  proof (cases "get tn s i = None")
    case True
    with after Add have "state_after (push_row tn s rnd i vs) = Some (s', rnd')"
      by (simp add: add_def)
    with noid u True show ?thesis by (rule push_row_unique)
  next
    case False
    with after Add have "s' = s" by (simp add: add_def)
    with u show ?thesis by simp
  qed
next
  case (Set i vs)
  show ?thesis
  proof (cases "get tn s i = None")
    case True
    with after Set have "state_after (push_row tn s rnd i vs) = Some (s', rnd')"
      by (simp add: set_values_def)
    with noid u True show ?thesis by (rule push_row_unique)
  next
    case False
    from after Set have "state_after (set_values tn s rnd i vs) = Some (s', rnd')" by simp
    with noid u False show ?thesis by (rule set_existing_unique)
  qed
qed

lemma run_unique:
  "''id'' \<notin> fst ` set (structure s) \<Longrightarrow> unique_ids tn (storage s) \<Longrightarrow>
     run tn calls (s, rnd) = Some (s', rnd') \<Longrightarrow> unique_ids tn (storage s')"
proof (induction calls arbitrary: s rnd)
  case Nil
  then show ?case by simp
next
  case (Cons c cs)
  from Cons.prems(3) obtain s1 rnd1
    where step: "state_after (apply_call tn c (s, rnd)) = Some (s1, rnd1)"
      and rest: "run tn cs (s1, rnd1) = Some (s', rnd')"
    by (cases "state_after (apply_call tn c (s, rnd))") auto
  from apply_call_unique [OF Cons.prems(1,2) step]
  have "unique_ids tn (storage s1)" and "structure s1 = structure s" by simp_all
  with Cons.prems(1) rest show ?case using Cons.IH [of s1 rnd1] by simp
qed

lemma push_row_explicit_finishes:
  "i \<noteq> JUndefined \<Longrightarrow> i \<noteq> JNull \<Longrightarrow> state_after (push_row tn s rnd i vs) \<noteq> None"
  by (simp add: push_row_def createRow_fold)

lemma apply_call_explicit_finishes:
  "explicit_id c \<Longrightarrow> state_after (apply_call tn c st) \<noteq> None"
proof (cases c)
  case (Add i vs)
  assume "explicit_id c"
  with Add show ?thesis
    using push_row_explicit_finishes [of i tn "fst st" "snd st" vs] by (auto simp: add_def)
next
  case (Set i vs)
  assume "explicit_id c"
  with Set show ?thesis
    using push_row_explicit_finishes [of i tn "fst st" "snd st" vs]
    by (auto simp: set_values_def Let_def split: prod.splits option.splits)
qed

lemma run_explicit_finishes:
  "list_all explicit_id calls \<Longrightarrow> run tn calls st \<noteq> None"
proof (induction calls arbitrary: st)
  case Nil
  then show ?case by simp
next
  case (Cons c cs)
  then have "explicit_id c" and rest: "list_all explicit_id cs" by simp_all
  from apply_call_explicit_finishes [OF this(1), of tn st]
  obtain st1 where "state_after (apply_call tn c st) = Some st1" by auto
  then show ?case using Cons.IH [OF rest, of st1] by simp
qed

lemma add_omitted_finishes:
  assumes "\<exists>u \<in> set rnd. get tn s (JNum (Fin (of_int \<lfloor>u * (2147483648 - 0 + 1)\<rfloor> + 0))) = None"
  shows "state_after (add tn s rnd JUndefined vs) \<noteq> None"
proof -
  from generateID_returns [OF assms] obtain i rnd' where "generateID tn s rnd = Some (i, rnd')"
    by auto
  then show ?thesis by (simp add: add_def push_row_def createRow_fold)
qed

text \<open>
  C6, as the claim states it, fails: the schema may declare a field named \<^verbatim>\<open>id\<close>, and
  the spread \<^verbatim>\<open>{ id: ..., ...this.#createRow(values) }\<close> then overwrites the identifier.
  With the schema \<^verbatim>\<open>{id: {type: 'number', default: 0}}\<close> and an empty store,
  \<^verbatim>\<open>add(1, {})\<close> and \<^verbatim>\<open>add(2, {})\<close> leave two records with the id 0.
\<close>

theorem schema_id_counterexample:
  "unique_ids StringToNumber (storage id_store)
   \<and> run StringToNumber [Add (JNum (Fin 1)) [], Add (JNum (Fin 2)) []] (id_store, [])
     = Some (id_store\<lparr>storage := [[(''id'', JNum (Fin 0))], [(''id'', JNum (Fin 0))]]\<rparr>, [])
   \<and> \<not> unique_ids StringToNumber [[(''id'', JNum (Fin 0))], [(''id'', JNum (Fin 0))]]"
proof (intro conjI)
  show "unique_ids StringToNumber (storage id_store)"
    by (simp add: id_store_def)
  have row: "createRow StringToNumber (id_store\<lparr>storage := rows\<rparr>) [] = Inr [(''id'', JNum (Fin 0))]"
    for rows
    by (simp add: createRow_def id_store_def example_options_def number_default_zero_def
        isCorrectType_def isField_def obj_get_def nullish_def)
  have first: "add StringToNumber id_store [] (JNum (Fin 1)) []
      = Returned (id_store\<lparr>storage := [[(''id'', JNum (Fin 0))]]\<rparr>, [])"
    using row [of "[]"]
    by (simp add: add_def get_def push_row_def id_store_def)
  have second: "add StringToNumber (id_store\<lparr>storage := [[(''id'', JNum (Fin 0))]]\<rparr>) [] (JNum (Fin 2)) []
      = Returned (id_store\<lparr>storage := [[(''id'', JNum (Fin 0))], [(''id'', JNum (Fin 0))]]\<rparr>, [])"
    using row [of "[[(''id'', JNum (Fin 0))]]"]
    by (simp add: add_def get_def push_row_def obj_get_def)
  show "run StringToNumber [Add (JNum (Fin 1)) [], Add (JNum (Fin 2)) []] (id_store, [])
     = Some (id_store\<lparr>storage := [[(''id'', JNum (Fin 0))], [(''id'', JNum (Fin 0))]]\<rparr>, [])"
    by (simp add: first second)
  show "\<not> unique_ids StringToNumber [[(''id'', JNum (Fin 0))], [(''id'', JNum (Fin 0))]]"
    by (simp add: obj_get_def)
qed

text \<open>
  C6, amended. For a schema that declares no field named \<^verbatim>\<open>id\<close>: from a store in which
  no two records have loosely equal ids, every finite sequence of \<^verbatim>\<open>add\<close> and \<^verbatim>\<open>set\<close>
  calls, with explicit or omitted ids, ends in such a store. The sequence finishes when
  every id is explicit, and a call with an omitted id finishes when one of the random
  draws gives an id that is free. Loose equality is symmetric, so the order of the two
  records does not matter.
\<close>

theorem ids_stay_unique:
  "(''id'' \<notin> fst ` set (structure s) \<and> unique_ids tn (storage s)
      \<and> run tn calls (s, rnd) = Some (s', rnd')
      \<longrightarrow> unique_ids tn (storage s'))
   \<and> (list_all explicit_id calls \<longrightarrow> run tn calls (s, rnd) \<noteq> None)
   \<and> ((\<exists>u \<in> set rnd. get tn s (JNum (Fin (of_int \<lfloor>u * (2147483648 - 0 + 1)\<rfloor> + 0))) = None)
      \<longrightarrow> state_after (add tn s rnd JUndefined vs) \<noteq> None)
   \<and> (unique_ids tn rows \<longleftrightarrow>
        (\<forall>i j. i < j \<and> j < length rows
           \<longrightarrow> \<not> loose_eq tn (obj_get (rows ! i) ''id'') (obj_get (rows ! j) ''id'')))
   \<and> loose_eq tn a b = loose_eq tn b a"
proof (intro conjI impI)
  assume "''id'' \<notin> fst ` set (structure s) \<and> unique_ids tn (storage s)
      \<and> run tn calls (s, rnd) = Some (s', rnd')"
  then show "unique_ids tn (storage s')"
    using run_unique [of s tn calls rnd s' rnd'] by simp
next
  assume "list_all explicit_id calls"
  then show "run tn calls (s, rnd) \<noteq> None" by (rule run_explicit_finishes)
next
  assume "\<exists>u \<in> set rnd. get tn s (JNum (Fin (of_int \<lfloor>u * (2147483648 - 0 + 1)\<rfloor> + 0))) = None"
  then show "state_after (add tn s rnd JUndefined vs) \<noteq> None" by (rule add_omitted_finishes)
next
  show "unique_ids tn rows \<longleftrightarrow>
        (\<forall>i j. i < j \<and> j < length rows
           \<longrightarrow> \<not> loose_eq tn (obj_get (rows ! i) ''id'') (obj_get (rows ! j) ''id''))"
    by (rule unique_ids_nth)
next
  show "loose_eq tn a b = loose_eq tn b a" by (rule loose_eq_sym)
qed

lemma half_draw: "\<lfloor>(1 / 2 :: rat) * (2147483648 - 0 + 1)\<rfloor> = 1073741824"
  by code_simp

lemma floor_draw: "\<lfloor>(2147483649 / 2 :: rat)\<rfloor> = 1073741824"
  using half_draw by simp

lemma example_run:
  "run StringToNumber example_calls (defaults_store, [1 / 2])
     = Some (defaults_store\<lparr>storage :=
         [[(''id'', JNum (Fin 1)), (''a'', JNum (Fin 5)), (''b'', JNum (Fin 0))],
          [(''id'', JNum (Fin 2)), (''a'', JNum (Fin 7)), (''b'', JNum (Fin 0))],
          [(''id'', JNum (Fin 1073741824)), (''a'', JNull), (''b'', JNum (Fin 0))]]\<rparr>, [])"
proof -
  let ?tn = StringToNumber
  let ?r1 = "[(''id'', JNum (Fin 1)), (''a'', JNum (Fin 5)), (''b'', JNum (Fin 0))]"
  let ?r2 = "[(''id'', JNum (Fin 2)), (''a'', JNum (Fin 7)), (''b'', JNum (Fin 0))]"
  let ?r3 = "[(''id'', JNum (Fin 1073741824)), (''a'', JNull), (''b'', JNum (Fin 0))]"
  let ?s2 = "defaults_store\<lparr>storage := [?r1, ?r2]\<rparr>"
  let ?s3 = "defaults_store\<lparr>storage := [?r1, ?r2, ?r3]\<rparr>"
  have row: "createRow ?tn (defaults_store\<lparr>storage := rows\<rparr>) vals
      = Inr [(''a'', if typeof (obj_get vals ''a'') = ''number'' then obj_get vals ''a'' else JNull),
             (''b'', if typeof (obj_get vals ''b'') = ''number'' then obj_get vals ''b'' else JNum (Fin 0))]"
    for rows vals
    by (simp add: createRow_def defaults_store_def example_options_def number_field_def
        number_default_zero_def isCorrectType_def isField_def nullish_def)
  have same: "defaults_store\<lparr>storage := storage defaults_store\<rparr> = defaults_store"
    by simp
  have c1: "add ?tn defaults_store [1 / 2] (JNum (Fin 1)) [(''a'', JNum (Fin 9))]
      = Returned (defaults_store, [1 / 2])"
    by (simp add: add_def get_def defaults_store_def obj_get_def)
  have c2: "set_values ?tn defaults_store [1 / 2] (JNum (Fin 2)) [(''a'', JNum (Fin 7))]
      = Returned (?s2, [1 / 2])"
    using row [of "storage defaults_store" "[(''a'', JNum (Fin 7))]"]
    by (simp add: set_values_def get_def push_row_def same)
      (simp add: defaults_store_def obj_get_def)
  have c3: "add ?tn ?s2 [1 / 2] JUndefined [] = Returned (?s3, [])"
    using row [of "[?r1, ?r2]" "[]"]
    by (simp add: add_def get_def push_row_def floor_draw obj_get_def)
  show ?thesis
    by (simp add: example_calls_def c1 c2 c3)
qed

theorem ids_stay_unique_witness:
  "run StringToNumber example_calls (defaults_store, [1 / 2])
     = Some (defaults_store\<lparr>storage :=
         [[(''id'', JNum (Fin 1)), (''a'', JNum (Fin 5)), (''b'', JNum (Fin 0))],
          [(''id'', JNum (Fin 2)), (''a'', JNum (Fin 7)), (''b'', JNum (Fin 0))],
          [(''id'', JNum (Fin 1073741824)), (''a'', JNull), (''b'', JNum (Fin 0))]]\<rparr>, [])
   \<and> unique_ids StringToNumber
       [[(''id'', JNum (Fin 1)), (''a'', JNum (Fin 5)), (''b'', JNum (Fin 0))],
        [(''id'', JNum (Fin 2)), (''a'', JNum (Fin 7)), (''b'', JNum (Fin 0))],
        [(''id'', JNum (Fin 1073741824)), (''a'', JNull), (''b'', JNum (Fin 0))]]
   \<and> run StringToNumber [Add (JNum (Fin 1)) [], Set (JNum (Fin 2)) []] (defaults_store, []) \<noteq> None
   \<and> state_after (add StringToNumber defaults_store [1 / 2] JUndefined []) \<noteq> None"
proof -
  let ?tn = StringToNumber
  let ?r1 = "[(''id'', JNum (Fin 1)), (''a'', JNum (Fin 5)), (''b'', JNum (Fin 0))]"
  let ?r2 = "[(''id'', JNum (Fin 2)), (''a'', JNum (Fin 7)), (''b'', JNum (Fin 0))]"
  let ?r3 = "[(''id'', JNum (Fin 1073741824)), (''a'', JNull), (''b'', JNum (Fin 0))]"
  let ?s2 = "defaults_store\<lparr>storage := [?r1, ?r2]\<rparr>"
  let ?s3 = "defaults_store\<lparr>storage := [?r1, ?r2, ?r3]\<rparr>"
  have ran: "run ?tn example_calls (defaults_store, [1 / 2]) = Some (?s3, [])"
    by (rule example_run)
  have noid: "''id'' \<notin> fst ` set (structure defaults_store)"
    by (simp add: defaults_store_def)
  have start: "unique_ids ?tn (storage defaults_store)"
    by (simp add: defaults_store_def)
  note inv = ids_stay_unique [where tn = ?tn and s = defaults_store and rnd = "[1 / 2]"]
  from inv [where calls = example_calls and s' = ?s3 and rnd' = "[]", THEN conjunct1] noid start ran
  have unique: "unique_ids ?tn [?r1, ?r2, ?r3]"
    by simp
  from ids_stay_unique [where tn = ?tn and s = defaults_store and rnd = "[]"
      and calls = "[Add (JNum (Fin 1)) [], Set (JNum (Fin 2)) []]", THEN conjunct2, THEN conjunct1]
  have finishes: "run ?tn [Add (JNum (Fin 1)) [], Set (JNum (Fin 2)) []] (defaults_store, []) \<noteq> None"
    by simp
  have free: "\<exists>u \<in> set [1 / 2 :: rat].
      get ?tn defaults_store (JNum (Fin (of_int \<lfloor>u * (2147483648 - 0 + 1)\<rfloor> + 0))) = None"
    by (simp add: floor_draw get_def defaults_store_def obj_get_def)
  from inv [where vs = "[]", THEN conjunct2, THEN conjunct2, THEN conjunct1, THEN mp, OF free]
  have omitted: "state_after (add ?tn defaults_store [1 / 2] JUndefined []) \<noteq> None" .
  from ran unique finishes omitted show ?thesis by (intro conjI)
qed

section \<open>Saving and loading again\<close>



lemma distinct_assign: "distinct (map fst ob) \<Longrightarrow> distinct (map fst (assign k v ob))"
proof (induction ob)
  case Nil
  then show ?case by simp
next
  case (Cons p ps)
  then show ?case using keys_assign [of k v ps] by (auto simp: image_iff)
qed


lemma distinct_spread: "distinct (map fst base) \<Longrightarrow> distinct (map fst (spread base ob))"
  by (induction ob arbitrary: base) (simp_all add: distinct_assign)

lemma keys_spread: "fst ` set (spread base ob) = fst ` set base \<union> fst ` set ob"
  by (induction ob arbitrary: base) (auto simp: keys_assign)










lemma structure_reduce_fold:
  "renames_nothing struct \<Longrightarrow> set keys \<subseteq> fst ` set struct \<Longrightarrow>
     structure_reduce struct row keys previous
       = Inr (fold (\<lambda>k. assign k (obj_get row k)) keys previous)"
proof (induction keys arbitrary: previous)
  case Nil
  then show ?case by simp
next
  case (Cons k keys)
  from Cons.prems(2) have "k \<in> fst ` set struct" and rest: "set keys \<subseteq> fst ` set struct"
    by simp_all
  then obtain d where d: "map_of struct k = Some d"
    using map_of_declared [of k struct] by auto
  then have "(k, d) \<in> set struct" by (rule map_of_SomeD)
  with Cons.prems(1) have "case field_rename (snd (k, d)) of
      None \<Rightarrow> True | Some rename \<Rightarrow> rename = [] \<or> rename = fst (k, d)"
    unfolding renames_nothing_def list_all_iff by blast
  then have "case field_rename d of None \<Rightarrow> True | Some rename \<Rightarrow> rename = [] \<or> rename = k"
    by (simp split: option.splits)
  then show ?case
    using d Cons.IH [OF Cons.prems(1) rest] by (auto split: option.splits)
qed




subsection \<open>Conforming records\<close>

text \<open>
  Under a schema that renames nothing and declares no inherited name, the records the
  constructor builds conform to the schema; \<^verbatim>\<open>add\<close> and \<^verbatim>\<open>set\<close> keep the records
  conforming when JSON keeps the ids, the values and the schema's defaults and the
  values have no field with an inherited name, and so do \<^verbatim>\<open>delete\<close> and \<^verbatim>\<open>clear\<close>.
\<close>

lemma values_assign: "snd ` set (assign k v ob) \<subseteq> insert v (snd ` set ob)"
  by (induction ob) auto

lemma values_fold_assign:
  "snd ` set (fold (\<lambda>k. assign k (g k)) keys prev) \<subseteq> g ` set keys \<union> snd ` set prev"
proof (induction keys arbitrary: prev)
  case Nil
  then show ?case by simp
next
  case (Cons k keys)
  have "snd ` set (fold (\<lambda>k. assign k (g k)) keys (assign k (g k) prev))
      \<subseteq> g ` set keys \<union> snd ` set (assign k (g k) prev)"
    by (rule Cons.IH)
  moreover have "snd ` set (assign k (g k) prev) \<subseteq> insert (g k) (snd ` set prev)"
    by (rule values_assign)
  ultimately have "snd ` set (fold (\<lambda>k. assign k (g k)) keys (assign k (g k) prev))
      \<subseteq> insert (g k) (g ` set keys) \<union> snd ` set prev"
    by blast
  then show ?case by simp
qed

lemma values_spread: "snd ` set (spread base ob) \<subseteq> snd ` set base \<union> snd ` set ob"
proof (induction ob arbitrary: base)
  case Nil
  then show ?case by simp
next
  case (Cons p ps)
  have "snd ` set (spread (assign (fst p) (snd p) base) ps)
      \<subseteq> snd ` set (assign (fst p) (snd p) base) \<union> snd ` set ps"
    by (rule Cons.IH)
  moreover have "snd ` set (assign (fst p) (snd p) base) \<subseteq> insert (snd p) (snd ` set base)"
    by (rule values_assign)
  ultimately have "snd ` set (spread (assign (fst p) (snd p) base) ps)
      \<subseteq> snd ` set base \<union> insert (snd p) (snd ` set ps)"
    by blast
  then show ?case by simp
qed

lemma json_keeps_parse_value: "json_keeps (parse_value j)"
  by (cases j) simp_all

lemma json_keeps_obj_get:
  "\<forall>v \<in> snd ` set ob. json_keeps v \<Longrightarrow> json_keeps (obj_get ob k)"
proof (cases "map_of ob k")
  case None
  then show ?thesis by (simp add: obj_get_def)
next
  case (Some v)
  assume all: "\<forall>v \<in> snd ` set ob. json_keeps v"
  from Some have "(k, v) \<in> set ob" by (rule map_of_SomeD)
  then have "v \<in> snd ` set ob" by force
  with all have "json_keeps v" by (rule bspec)
  with Some show ?thesis by (simp add: obj_get_def)
qed

lemma json_keeps_parsed:
  "json_keeps (obj_get (spread [] (map (\<lambda>p. (fst p, parse_value (snd p))) members)) k)"
proof (rule json_keeps_obj_get, rule ballI)
  fix v assume "v \<in> snd ` set (spread [] (map (\<lambda>p. (fst p, parse_value (snd p))) members))"
  with values_spread [of "[]" "map (\<lambda>p. (fst p, parse_value (snd p))) members"]
  have "v \<in> snd ` set (map (\<lambda>p. (fst p, parse_value (snd p))) members)" by auto
  then show "json_keeps v" by (auto simp: json_keeps_parse_value)
qed

lemma loaded_row_conforms:
  assumes keeps: "\<And>k. json_keeps (obj_get row k)"
  shows "conforms struct
    (spread [(''id'', obj_get row ''id'')] (fold (\<lambda>k. assign k (obj_get row k)) (map fst struct) []))"
proof -
  let ?structured = "fold (\<lambda>k. assign k (obj_get row k)) (map fst struct) []"
  let ?new = "spread [(''id'', obj_get row ''id'')] ?structured"
  have d: "distinct (map fst ?new)" by (rule distinct_spread) simp
  have "fst ` set ?new = fst ` set [(''id'', obj_get row ''id'')] \<union> fst ` set ?structured"
    by (rule keys_spread)
  moreover have "fst ` set ?structured = fst ` set struct"
    using keys_fold_assign [of "obj_get row" "map fst struct" "[]"] by simp
  ultimately have k: "fst ` set ?new = insert ''id'' (fst ` set struct)" by simp
  have a: "snd ` set ?new \<subseteq> snd ` set [(''id'', obj_get row ''id'')] \<union> snd ` set ?structured"
    by (rule values_spread)
  have b: "snd ` set ?structured \<subseteq> obj_get row ` set (map fst struct)"
    using values_fold_assign [of "obj_get row" "map fst struct" "[]"] by simp
  have "json_keeps v" if "v \<in> snd ` set ?new" for v
  proof -
    from that a have "v \<in> snd ` set [(''id'', obj_get row ''id'')] \<or> v \<in> snd ` set ?structured"
      by blast
    then show ?thesis
    proof
      assume "v \<in> snd ` set [(''id'', obj_get row ''id'')]"
      then have "v = obj_get row ''id''" by simp
      then show ?thesis by (simp add: keeps)
    next
      assume "v \<in> snd ` set ?structured"
      with b have "v \<in> obj_get row ` set (map fst struct)" by (rule subsetD)
      then obtain f where "v = obj_get row f" by auto
      then show ?thesis by (simp add: keeps)
    qed
  qed
  then have v: "list_all json_keeps (map snd ?new)"
    unfolding list_all_iff by force
  from d k v show ?thesis unfolding conforms_def by (intro conjI)
qed

lemma structure_rows_conform:
  assumes rn: "renames_nothing struct"
  shows "(\<And>row k. row \<in> set rows \<Longrightarrow> json_keeps (obj_get row k)) \<Longrightarrow>
     \<exists>rows'. structure_rows struct rows = Inr rows' \<and> list_all (conforms struct) rows'"
proof (induction rows)
  case Nil
  then show ?case by simp
next
  case (Cons row rows)
  have reduce: "structure_reduce struct row (map fst struct) []
      = Inr (fold (\<lambda>k. assign k (obj_get row k)) (map fst struct) [])"
    using rn by (rule structure_reduce_fold) simp
  have "conforms struct
    (spread [(''id'', obj_get row ''id'')] (fold (\<lambda>k. assign k (obj_get row k)) (map fst struct) []))"
    by (rule loaded_row_conforms) (simp add: Cons.prems)
  moreover obtain rows' where "structure_rows struct rows = Inr rows'"
    and "list_all (conforms struct) rows'"
    using Cons.IH Cons.prems by auto
  ultimately show ?case by (simp add: reduce)
qed

lemma Storage_new_conforms:
  assumes rn: "renames_nothing struct"
    and plain: "no_inherited_name (map fst struct)"
    and new: "Storage_new tn fs dir struct opts = Inr (fs', timer, hooks, s)"
  shows "list_all (conforms struct) (storage s) \<and> structure s = struct"
proof -
  from new obtain f where f: "createFile fs dir dir = Some f"
    by (cases "createFile fs dir dir") (auto simp: Storage_new_def Let_def)
  with new obtain doc where doc: "f = Document doc"
    by (cases f) (auto simp: Storage_new_def Let_def)
  let ?rows = "map (\<lambda>members. spread [] (map (\<lambda>p. (fst p, parse_value (snd p))) members)) doc"
  have "\<And>row k. row \<in> set ?rows \<Longrightarrow> json_keeps (obj_get row k)"
    by (auto simp: json_keeps_parsed)
  from structure_rows_conform [OF rn this] obtain rows'
    where rows': "structure_rows struct ?rows = Inr rows'" and c: "list_all (conforms struct) rows'"
    by blast
  from new f doc rows' have "s = \<lparr>directory = dir, options = opts, structure = struct, storage = rows'\<rparr>"
    by (simp add: Storage_new_def Let_def)
  with c show ?thesis by simp
qed

lemma conforms_assign:
  assumes c: "conforms struct row" and k: "k \<in> fst ` set struct" and v: "json_keeps v"
  shows "conforms struct (assign k v row)"
proof -
  from c have d: "distinct (map fst row)" and keys: "fst ` set row = insert ''id'' (fst ` set struct)"
    and keeps: "\<forall>x \<in> snd ` set row. json_keeps x"
    by (simp_all add: conforms_def list_all_iff)
  have "distinct (map fst (assign k v row))" using d by (rule distinct_assign)
  moreover have "fst ` set (assign k v row) = insert ''id'' (fst ` set struct)"
    using keys k by (auto simp: keys_assign)
  moreover have "\<forall>x \<in> snd ` set (assign k v row). json_keeps x"
    using values_assign [of k v row] keeps v by blast
  ultimately show ?thesis by (simp add: conforms_def list_all_iff)
qed

lemma set_entries_conforms:
  "conforms (structure s) row \<Longrightarrow> list_all json_keeps (map snd vs) \<Longrightarrow>
     no_inherited_name (map fst vs) \<Longrightarrow>
     conforms (structure s) (fst (set_entries tn s vs row))"
proof (induction vs arbitrary: row)
  case Nil
  then show ?case by simp
next
  case (Cons p ps)
  from Cons.prems(2) have v: "json_keeps (snd p)" and rest: "list_all json_keeps (map snd ps)"
    by simp_all
  from Cons.prems(3) have own: "fst p \<notin> set Object_prototype"
    and plain: "no_inherited_name (map fst ps)"
    by (simp_all add: no_inherited_name_def)
  show ?case
  proof (cases "isCorrectType tn s (fst p) (snd p)")
    case (Inl e)
    with Cons.prems(1) show ?thesis by simp
  next
    case (Inr ok)
    show ?thesis
    proof (cases ok)
      case True
      with Inr have "fst p \<in> fst ` set (structure s) \<or> fst p \<in> set Object_prototype"
        by (simp add: passing_field_declared)
      with own have "fst p \<in> fst ` set (structure s)" by simp
      with Cons.prems(1) v have "conforms (structure s) (assign (fst p) (snd p) row)"
        by (simp add: conforms_assign)
      from Cons.IH [OF this rest plain] Inr True show ?thesis by simp
    next
      case False
      with Inr Cons.IH [OF Cons.prems(1) rest plain] show ?thesis by simp
    qed
  qed
qed

lemma json_keeps_coerced_value:
  assumes vs: "list_all json_keeps (map snd vs)" and ds: "json_keeps_defaults (structure s)"
  shows "json_keeps (coerced_value tn s vs k)"
proof (cases "map_of (structure s) k")
  case None
  then show ?thesis by (simp add: coerced_value_def)
next
  case (Some d)
  then have "(k, d) \<in> set (structure s)" by (rule map_of_SomeD)
  with ds have "json_keeps (field_default (snd (k, d)))"
    unfolding json_keeps_defaults_def list_all_iff by blast
  then have "json_keeps (default_or_null d)"
    by (simp add: default_or_null_def nullish_def)
  moreover have "json_keeps (obj_get vs k)"
    using vs by (intro json_keeps_obj_get) (simp add: list_all_iff)
  ultimately show ?thesis using Some by (simp add: coerced_value_def)
qed

lemma generateID_json_keeps:
  "generateID tn s rnd = Some (i, rnd') \<Longrightarrow> json_keeps i"
  by (induction rnd) (auto simp: Let_def split: if_splits)

lemma push_row_conforms:
  assumes c: "list_all (conforms (structure s)) (storage s)"
    and i: "json_keeps i" and vs: "list_all json_keeps (map snd vs)"
    and ds: "json_keeps_defaults (structure s)"
    and after: "state_after (push_row tn s rnd i vs) = Some (s', rnd')"
  shows "list_all (conforms (structure s)) (storage s') \<and> structure s' = structure s"
proof -
  let ?gen = "if i = JUndefined \<or> i = JNull then generateID tn s rnd else Some (i, rnd)"
  let ?row = "fold (\<lambda>k. assign k (coerced_value tn s vs k)) (map fst (structure s)) []"
  have row: "createRow tn s vs = Inr ?row" by (rule createRow_fold)
  from after obtain i' rnd1 where gen: "?gen = Some (i', rnd1)"
    by (cases ?gen) (auto simp: push_row_def)
  have i': "json_keeps i'"
  proof (cases "i = JUndefined \<or> i = JNull")
    case True
    with gen have "generateID tn s rnd = Some (i', rnd1)" by simp
    then show ?thesis by (rule generateID_json_keeps)
  next
    case False
    with gen i show ?thesis by simp
  qed
  let ?new = "spread [(''id'', i')] ?row"
  have "push_row tn s rnd i vs = Returned (s\<lparr>storage := storage s @ [?new]\<rparr>, rnd1)"
    using gen by (simp add: push_row_def row)
  with after have s': "s' = s\<lparr>storage := storage s @ [?new]\<rparr>" by simp
  have d: "distinct (map fst ?new)" by (rule distinct_spread) simp
  have "fst ` set ?new = fst ` set [(''id'', i')] \<union> fst ` set ?row" by (rule keys_spread)
  moreover have "fst ` set ?row = fst ` set (structure s)"
    using keys_fold_assign [of "coerced_value tn s vs" "map fst (structure s)" "[]"] by simp
  ultimately have k: "fst ` set ?new = insert ''id'' (fst ` set (structure s))" by simp
  have a: "snd ` set ?new \<subseteq> snd ` set [(''id'', i')] \<union> snd ` set ?row"
    by (rule values_spread)
  have b: "snd ` set ?row \<subseteq> coerced_value tn s vs ` set (map fst (structure s))"
    using values_fold_assign [of "coerced_value tn s vs" "map fst (structure s)" "[]"] by simp
  have "json_keeps v" if "v \<in> snd ` set ?new" for v
  proof -
    from that a have "v \<in> snd ` set [(''id'', i')] \<or> v \<in> snd ` set ?row" by blast
    then show ?thesis
    proof
      assume "v \<in> snd ` set [(''id'', i')]"
      then show ?thesis using i' by simp
    next
      assume "v \<in> snd ` set ?row"
      with b have "v \<in> coerced_value tn s vs ` set (map fst (structure s))" by (rule subsetD)
      then obtain f where "v = coerced_value tn s vs f" by auto
      then show ?thesis by (simp add: json_keeps_coerced_value [OF vs ds])
    qed
  qed
  then have v: "list_all json_keeps (map snd ?new)"
    unfolding list_all_iff by force
  from d k v have "conforms (structure s) ?new" unfolding conforms_def by (intro conjI)
  with c show ?thesis by (simp add: s')
qed

lemma list_all_update: "list_all P xs \<Longrightarrow> P y \<Longrightarrow> list_all P (xs[n := y])"
  unfolding list_all_iff using set_update_subset_insert [of xs n y] by auto

lemma set_existing_conforms:
  assumes c: "list_all (conforms (structure s)) (storage s)"
    and vs: "list_all json_keeps (map snd vs)"
    and plain: "no_inherited_name (map fst vs)"
    and found: "get tn s i \<noteq> None"
    and after: "state_after (set_values tn s rnd i vs) = Some (s', rnd')"
  shows "list_all (conforms (structure s)) (storage s') \<and> structure s' = structure s"
proof -
  let ?n = "findIndex (\<lambda>row. loose_eq tn (obj_get row ''id'') i) (storage s)"
  show ?thesis
  proof (cases "?n < 0 \<or> int (length (storage s)) \<le> ?n")
    case True
    with found after have "s' = s" by (simp add: set_values_def Let_def)
    with c show ?thesis by simp
  next
    case False
    then have n: "nat ?n < length (storage s)" by linarith
    let ?old = "storage s ! nat ?n"
    let ?new = "fst (set_entries tn s vs ?old)"
    have "set_values tn s rnd i vs
        = (case set_entries tn s vs ?old of
             (row, None) \<Rightarrow> Returned (s\<lparr>storage := (storage s)[nat ?n := row]\<rparr>, rnd)
           | (row, Some e) \<Rightarrow> Threw e (s\<lparr>storage := (storage s)[nat ?n := row]\<rparr>, rnd))"
      using found False by (simp add: set_values_def Let_def)
    with after have s': "s' = s\<lparr>storage := (storage s)[nat ?n := ?new]\<rparr>"
      by (cases "set_entries tn s vs ?old") (auto split: option.splits)
    from c n have "conforms (structure s) ?old" by (simp add: list_all_length)
    then have "conforms (structure s) ?new" using vs plain by (rule set_entries_conforms)
    with c have "list_all (conforms (structure s)) ((storage s)[nat ?n := ?new])"
      by (rule list_all_update)
    then show ?thesis by (simp add: s')
  qed
qed

lemma apply_call_conforms:
  assumes c: "list_all (conforms (structure s)) (storage s)"
    and ds: "json_keeps_defaults (structure s)"
    and k: "json_keeps_call cl"
    and pl: "plain_call cl"
    and after: "state_after (apply_call tn cl (s, rnd)) = Some (s', rnd')"
  shows "list_all (conforms (structure s)) (storage s') \<and> structure s' = structure s"
proof (cases cl)
  case (Add i vs)
  with k have i: "json_keeps i" and vs: "list_all json_keeps (map snd vs)" by simp_all
  show ?thesis
  proof (cases "get tn s i = None")
    case True
    with after Add have "state_after (push_row tn s rnd i vs) = Some (s', rnd')"
      by (simp add: add_def)
    with c i vs ds show ?thesis by (rule push_row_conforms)
  next
    case False
    with after Add have "s' = s" by (simp add: add_def)
    with c show ?thesis by simp
  qed
next
  case (Set i vs)
  with k have i: "json_keeps i" and vs: "list_all json_keeps (map snd vs)" by simp_all
  show ?thesis
  proof (cases "get tn s i = None")
    case True
    with after Set have "state_after (push_row tn s rnd i vs) = Some (s', rnd')"
      by (simp add: set_values_def)
    with c i vs ds show ?thesis by (rule push_row_conforms)
  next
    case False
    from pl Set have plain: "no_inherited_name (map fst vs)" by simp
    from after Set have "state_after (set_values tn s rnd i vs) = Some (s', rnd')" by simp
    with c vs plain False show ?thesis by (rule set_existing_conforms)
  qed
qed

lemma run_conforms:
  "list_all (conforms (structure s)) (storage s) \<Longrightarrow> json_keeps_defaults (structure s) \<Longrightarrow>
     no_inherited_name (map fst (structure s)) \<Longrightarrow>
     list_all json_keeps_call calls \<Longrightarrow> list_all plain_call calls \<Longrightarrow>
     run tn calls (s, rnd) = Some (s', rnd') \<Longrightarrow>
     list_all (conforms (structure s)) (storage s') \<and> structure s' = structure s"
proof (induction calls arbitrary: s rnd)
  case Nil
  then show ?case by simp
next
  case (Cons cl cls)
  from Cons.prems(4) have k: "json_keeps_call cl" and ks: "list_all json_keeps_call cls"
    by simp_all
  from Cons.prems(5) have pl: "plain_call cl" and pls: "list_all plain_call cls"
    by simp_all
  from Cons.prems(6) obtain s1 rnd1
    where step: "state_after (apply_call tn cl (s, rnd)) = Some (s1, rnd1)"
      and rest: "run tn cls (s1, rnd1) = Some (s', rnd')"
    by (cases "state_after (apply_call tn cl (s, rnd))") auto
  from apply_call_conforms [OF Cons.prems(1,2) k pl step]
  have c1: "list_all (conforms (structure s)) (storage s1)" and st: "structure s1 = structure s"
    by simp_all
  from Cons.IH [of s1 rnd1] c1 st Cons.prems(2,3) ks pls rest show ?case by simp
qed

lemma delete_clear_conform:
  "list_all (conforms (structure s)) (storage s) \<Longrightarrow>
     list_all (conforms (structure s)) (storage (delete tn s i))
     \<and> list_all (conforms (structure s)) (storage (clear s))"
  by (simp add: delete_def clear_def list_all_iff)




end
